theory Spec2Isabelle
  imports Main "HOL-Library.Word" "HOL-Library.Multiset" "HOL-Library.AList"
    "HOL-Library.Char_ord" "HOL-Library.List_Lexorder"
begin

unbundle bit_operations_syntax

section \<open>The normalized tree\<close>

text \<open>
  Go's \<open>float64\<close> is an IEEE-754 binary64 value.  It is kept as its 64-bit pattern
  (sign, 11 exponent bits, 52 fraction bits), and Go's \<open>==\<close> on \<open>float64\<close> is written
  out on the pattern: a NaN is equal to nothing, not even itself, and the two zeros are
  equal to each other.
\<close>

type_synonym float64 = "64 word"

definition isNaN :: "float64 \<Rightarrow> bool" where
  "isNaN x = (x AND 0x7FF0000000000000 = 0x7FF0000000000000 \<and> x AND 0x000FFFFFFFFFFFFF \<noteq> 0)"

definition isZero :: "float64 \<Rightarrow> bool" where
  "isZero x = (x AND 0x7FFFFFFFFFFFFFFF = 0)"

definition float64_eq :: "float64 \<Rightarrow> float64 \<Rightarrow> bool" where
  "float64_eq x y = (\<not> isNaN x \<and> \<not> isNaN y \<and> (x = y \<or> (isZero x \<and> isZero y)))"

text \<open>The patterns of the numbers the examples use, and of one quiet NaN.\<close>

definition f64_1 :: float64 where "f64_1 = 0x3FF0000000000000"
definition f64_2 :: float64 where "f64_2 = 0x4000000000000000"
definition f64_3 :: float64 where "f64_3 = 0x4008000000000000"
definition f64_42 :: float64 where "f64_42 = 0x4045000000000000"
definition f64_NaN :: float64 where "f64_NaN = 0x7FF8000000000001"

text \<open>
  Modelled from the spec: the type \<open>tree.Node\<close> and its constructors (package
  \<open>tree\<close> is not among the sources; the differ and its tests use \<open>Kind\<close>,
  \<open>Value\<close>, \<open>Object\<close>, \<open>Array\<close> and \<open>tree.NewNull\<close> ... \<open>tree.NewArray\<close>).
  A node is exactly one of six kinds; \<open>Value\<close> is populated for the scalar kinds only,
  objects and arrays carry their children in \<open>Object\<close> and \<open>Array\<close>.  An object's
  Go map is an association list here, read with \<open>map_of\<close>; the order of its entries is
  never used as an iteration order (see \<open>rangeOrder\<close> below).  A \<open>*tree.Node\<close> that
  may be nil is a \<open>node option\<close>; nil never occurs inside a container.
\<close>

datatype NodeKind = KindNull | KindBool | KindNumber | KindString | KindObject | KindArray

datatype node =
    NewNull
  | NewBool bool
  | NewNumber float64
  | NewString string
  | NewObject "(string \<times> node) list"
  | NewArray "node list"

text \<open>The dynamic value of the field \<open>Value interface{}\<close>.\<close>

datatype val = NilVal | BoolVal bool | Float64Val float64 | StringVal string

fun Kind :: "node \<Rightarrow> NodeKind" where
  "Kind NewNull = KindNull"
| "Kind (NewBool _) = KindBool"
| "Kind (NewNumber _) = KindNumber"
| "Kind (NewString _) = KindString"
| "Kind (NewObject _) = KindObject"
| "Kind (NewArray _) = KindArray"

fun Value :: "node \<Rightarrow> val" where
  "Value (NewBool b) = BoolVal b"
| "Value (NewNumber x) = Float64Val x"
| "Value (NewString s) = StringVal s"
| "Value _ = NilVal"

fun Object :: "node \<Rightarrow> (string \<times> node) list" where
  "Object (NewObject kvs) = kvs"
| "Object _ = []"

fun Array :: "node \<Rightarrow> node list" where
  "Array (NewArray xs) = xs"
| "Array _ = []"

text \<open>
  Go's \<open>==\<close> on two interface values: equal dynamic types and equal dynamic values,
  where two \<open>float64\<close> are compared as floats.
\<close>

fun val_eq :: "val \<Rightarrow> val \<Rightarrow> bool" where
  "val_eq NilVal NilVal = True"
| "val_eq (BoolVal x) (BoolVal y) = (x = y)"
| "val_eq (Float64Val x) (Float64Val y) = float64_eq x y"
| "val_eq (StringVal x) (StringVal y) = (x = y)"
| "val_eq _ _ = False"

section \<open>Changes and options\<close>

datatype ChangeType = ChangeTypeAdd | ChangeTypeRemove | ChangeTypeModify | ChangeTypeMove

record Change =
  Type :: ChangeType
  Path :: string
  OldValue :: "node option"
  NewValue :: "node option"
  ArrayIndex :: int

record Coercions =
  NumericStrings :: bool
  BoolStrings :: bool

record Options =
  IgnorePaths :: "string list"
  ArraySetKeys :: "string \<rightharpoonup> string"
  Coercions :: Coercions
  StableOrder :: bool

text \<open>
  What the differ takes from the Go runtime and standard library, as parameters:
  \<^item> \<open>ParseFloat s\<close> is \<open>Some x\<close> when \<open>strconv.ParseFloat(s, 64)\<close> returns \<open>x\<close> with a
    nil error, and \<open>None\<close> when it returns an error;
  \<^item> \<open>rangeOrder ks\<close> is the order in which a \<open>range\<close> over a Go map with the keys
    \<open>ks\<close> yields them.  Go leaves that order unspecified; a runtime is well behaved
    when it yields every key exactly once.
\<close>

record runtime =
  ParseFloat :: "string \<Rightarrow> float64 option"
  rangeOrder :: "string list \<Rightarrow> string list"

definition rangeOrder_ok :: "runtime \<Rightarrow> bool" where
  "rangeOrder_ok rt = (\<forall>ks. mset (rangeOrder rt ks) = mset ks)"

datatype error = DiffError string

section \<open>Path patterns\<close>

text \<open>
  \<open>strings.Trim(s, "/")\<close>, \<open>strings.Split(s, "/")\<close> and \<open>strings.Join(xs, "/")\<close>.
  Splitting the empty string gives one empty segment, so the result is never empty.
\<close>

definition trimSlash :: "string \<Rightarrow> string" where
  "trimSlash s =
     rev (dropWhile (\<lambda>c. c = CHR ''/'') (rev (dropWhile (\<lambda>c. c = CHR ''/'') s)))"

fun splitSlash :: "string \<Rightarrow> string list" where
  "splitSlash [] = [[]]"
| "splitSlash (c # cs) =
     (if c = CHR ''/'' then [] # splitSlash cs
      else case splitSlash cs of
             seg # segs \<Rightarrow> (c # seg) # segs
           | [] \<Rightarrow> [[c]])"

fun joinSlash :: "string list \<Rightarrow> string" where
  "joinSlash [] = []"
| "joinSlash [x] = x"
| "joinSlash (x # xs) = x @ ''/'' @ joinSlash xs"

fun matchSegments :: "string list \<Rightarrow> string list \<Rightarrow> bool" where
  "matchSegments pathSegs [] = (pathSegs = [])"
| "matchSegments [] patternSegs = list_all (\<lambda>p. p = ''*'') patternSegs"
| "matchSegments (seg # pathSegs) (pattern # patternSegs) =
     (if pattern = ''*'' then
        (if patternSegs = [] then True
         else matchSegments pathSegs patternSegs \<or> matchSegments pathSegs (pattern # patternSegs))
      else if seg \<noteq> pattern then False
      else matchSegments pathSegs patternSegs)"

definition matchPath :: "string \<Rightarrow> string \<Rightarrow> bool" where
  "matchPath path pattern =
     (let pathSegments = splitSlash (trimSlash path);
          patternSegments = splitSlash (trimSlash pattern)
      in if CHR ''*'' \<notin> set pattern
         then ''/'' @ joinSlash pathSegments = ''/'' @ joinSlash patternSegments
         else matchSegments pathSegments patternSegments)"

lemma splitSlash_ne: "splitSlash s \<noteq> []"
  by (induction s) (auto split: list.splits)

definition shouldIgnore :: "Options \<Rightarrow> string \<Rightarrow> bool" where
  "shouldIgnore opts path = list_ex (\<lambda>pattern. matchPath path pattern) (IgnorePaths opts)"

definition joinPath :: "string \<Rightarrow> string \<Rightarrow> string" where
  "joinPath base key = (if base = ''/'' then ''/'' @ key else base @ ''/'' @ key)"

text \<open>\<open>%d\<close> of \<open>fmt.Sprintf\<close> on a loop index, which is never negative.\<close>

fun itoa :: "nat \<Rightarrow> string" where
  "itoa n = (if n < 10 then [''0123456789'' ! n]
             else itoa (n div 10) @ [''0123456789'' ! (n mod 10)])"

declare itoa.simps [simp del]

section \<open>The differ\<close>

text \<open>
  \<open>canCoerce\<close> has two guarded blocks, each of which may return or fall through to what
  follows it.  A block is an option here: \<open>Some r\<close> is \<open>return r\<close>, \<open>None\<close> is falling
  through; the last line is \<open>return false\<close>.
\<close>

definition canCoerce :: "runtime \<Rightarrow> Options \<Rightarrow> node \<Rightarrow> node \<Rightarrow> bool" where
  "canCoerce rt opts a b =
     (case (if NumericStrings (Coercions opts) then
              (case (a, b) of
                 (NewString s, NewNumber x) \<Rightarrow>
                   (case ParseFloat rt s of Some num \<Rightarrow> Some (float64_eq num x) | None \<Rightarrow> None)
               | (NewNumber x, NewString s) \<Rightarrow>
                   (case ParseFloat rt s of Some num \<Rightarrow> Some (float64_eq x num) | None \<Rightarrow> None)
               | _ \<Rightarrow> None)
            else None) of
        Some r \<Rightarrow> r
      | None \<Rightarrow>
         (case (if BoolStrings (Coercions opts) then
                  (case (a, b) of
                     (NewString s, NewBool v) \<Rightarrow>
                       (if s = ''true'' then Some (v = True)
                        else if s = ''false'' then Some (v = False) else None)
                   | (NewBool v, NewString s) \<Rightarrow>
                       (if s = ''true'' then Some (v = True)
                        else if s = ''false'' then Some (v = False) else None)
                   | _ \<Rightarrow> None)
                else None) of
            Some r \<Rightarrow> r
          | None \<Rightarrow> False))"

definition extractKey :: "node \<Rightarrow> string \<Rightarrow> string" where
  "extractKey n keyField =
     (if Kind n \<noteq> KindObject then ''''
      else case map_of (Object n) keyField of
             None \<Rightarrow> ''''
           | Some keyNode \<Rightarrow>
               (if Kind keyNode \<noteq> KindString then ''''
                else case Value keyNode of StringVal s \<Rightarrow> s | _ \<Rightarrow> ''''))"

text \<open>
  The two loops of \<open>diffArrayAsSet\<close> that fill \<open>aMap\<close> and \<open>bMap\<close>: a later element
  with the same key replaces an earlier one.
\<close>

definition keyedMap :: "node list \<Rightarrow> string \<Rightarrow> (string \<times> node) list" where
  "keyedMap elems keyField =
     foldl (\<lambda>m elem. let key = extractKey elem keyField
                      in if key \<noteq> '''' then AList.update key elem m else m) [] elems"

text \<open>
  The key collection of \<open>diffObjects\<close> and \<open>diffArrayAsSet\<close>: the keys of both maps go
  into the set \<open>allKeys\<close>, a \<open>range\<close> over it fills the slice \<open>keys\<close>, and
  \<open>sort.Strings\<close> sorts the slice when \<open>StableOrder\<close> is set.
\<close>

definition unionKeys :: "runtime \<Rightarrow> Options \<Rightarrow> (string \<times> node) list \<Rightarrow> (string \<times> node) list
    \<Rightarrow> string list" where
  "unionKeys rt opts aMap bMap =
     (let allKeys = remdups (map fst aMap @ map fst bMap);
          keys = rangeOrder rt allKeys
      in if StableOrder opts then sort keys else keys)"

definition nth_opt :: "node list \<Rightarrow> nat \<Rightarrow> node option" where
  "nth_opt xs i = (if i < length xs then Some (xs ! i) else None)"

lemma size_map_of:
  "map_of kvs k = Some v \<Longrightarrow> size v < Suc (size_list (size_prod (\<lambda>x. 0) size) kvs)"
  by (induction kvs) (auto split: if_splits)

lemma size_Object: "map_of (Object a) k = Some v \<Longrightarrow> size (v :: node) < size a"
  by (cases a) (auto dest: size_map_of)

lemma size_Array: "x \<in> set (Array a) \<Longrightarrow> size (x :: node) < size a"
  by (cases a) (auto simp: less_Suc_eq_le size_list_estimation')

lemma map_of_update_cases:
  "map_of (AList.update k v al) k' = Some e \<Longrightarrow> (k' = k \<and> e = v) \<or> map_of al k' = Some e"
  by (auto simp: update_conv' split: if_splits)

lemma keyedMap_fold_mem:
  "map_of (foldl (\<lambda>m elem. let key = extractKey elem kf
                            in if key \<noteq> '''' then AList.update key elem m else m) m0 xs) k = Some e
   \<Longrightarrow> e \<in> set xs \<or> map_of m0 k = Some e"
proof (induction xs arbitrary: m0)
  case Nil
  then show ?case by simp
next
  case (Cons x xs)
  from Cons.IH [OF Cons.prems [simplified]] show ?case
    by (auto simp: Let_def dest: map_of_update_cases split: if_splits)
qed

lemma keyedMap_mem: "map_of (keyedMap xs kf) k = Some e \<Longrightarrow> e \<in> set xs"
  unfolding keyedMap_def by (drule keyedMap_fold_mem) simp

text \<open>
  The traversal.  The receiver's \<open>changes\<close> slice is only ever appended to, so each
  function returns the changes it appends, in order, and a loop is the concatenation of
  what its rounds append.  In \<open>diffObjects\<close> and \<open>diffArrayAsSet\<close> the three branches
  on \<open>aExists\<close> and \<open>bExists\<close> pass nil for a missing key and the element found
  otherwise, which is the pair of the two lookups.
\<close>

function (sequential)
  diffNodes :: "runtime \<Rightarrow> Options \<Rightarrow> node option \<Rightarrow> node option \<Rightarrow> string \<Rightarrow> Change list"
  and diffObjects :: "runtime \<Rightarrow> Options \<Rightarrow> node \<Rightarrow> node \<Rightarrow> string \<Rightarrow> Change list"
  and diffArrays :: "runtime \<Rightarrow> Options \<Rightarrow> node \<Rightarrow> node \<Rightarrow> string \<Rightarrow> Change list"
  and diffArrayAsSet ::
    "runtime \<Rightarrow> Options \<Rightarrow> node \<Rightarrow> node \<Rightarrow> string \<Rightarrow> string \<Rightarrow> Change list"
where
  "diffNodes rt opts a b path =
     (if shouldIgnore opts path then []
      else case (a, b) of
        (None, None) \<Rightarrow> []
      | (None, Some bn) \<Rightarrow>
          [\<lparr>Type = ChangeTypeAdd, Path = path, OldValue = None, NewValue = Some bn,
            ArrayIndex = 0\<rparr>]
      | (Some an, None) \<Rightarrow>
          [\<lparr>Type = ChangeTypeRemove, Path = path, OldValue = Some an, NewValue = None,
            ArrayIndex = 0\<rparr>]
      | (Some an, Some bn) \<Rightarrow>
          (if Kind an \<noteq> Kind bn then
             (if canCoerce rt opts an bn then []
              else [\<lparr>Type = ChangeTypeModify, Path = path, OldValue = Some an,
                     NewValue = Some bn, ArrayIndex = 0\<rparr>])
           else if Kind an = KindNull then []
           else if Kind an = KindObject then diffObjects rt opts an bn path
           else if Kind an = KindArray then diffArrays rt opts an bn path
           else if \<not> val_eq (Value an) (Value bn) then
                  [\<lparr>Type = ChangeTypeModify, Path = path, OldValue = Some an,
                    NewValue = Some bn, ArrayIndex = 0\<rparr>]
           else []))"
| "diffObjects rt opts a b path =
     concat (map (\<lambda>key. diffNodes rt opts (map_of (Object a) key) (map_of (Object b) key)
                          (joinPath path key))
                 (unionKeys rt opts (Object a) (Object b)))"
| "diffArrays rt opts a b path =
     (case ArraySetKeys opts path of
        Some keyField \<Rightarrow> diffArrayAsSet rt opts a b path keyField
      | None \<Rightarrow>
          concat (map (\<lambda>i. diffNodes rt opts (nth_opt (Array a) i) (nth_opt (Array b) i)
                             (path @ ''['' @ itoa i @ '']''))
                      [0 ..< max (length (Array a)) (length (Array b))]))"
| "diffArrayAsSet rt opts a b path keyField =
     concat (map (\<lambda>key. diffNodes rt opts (map_of (keyedMap (Array a) keyField) key)
                          (map_of (keyedMap (Array b) keyField) key)
                          (path @ ''['' @ keyField @ ''='' @ key @ '']''))
                 (unionKeys rt opts (keyedMap (Array a) keyField) (keyedMap (Array b) keyField)))"
  by pat_completeness auto

definition osize :: "node option \<Rightarrow> nat" where
  "osize x = (case x of None \<Rightarrow> 0 | Some n \<Rightarrow> Suc (size n))"

lemma osize_Object: "osize (map_of (Object a) k) < Suc (size a)"
  by (auto simp: osize_def dest: size_Object split: option.splits)

lemma osize_nth_opt: "osize (nth_opt (Array a) i) < Suc (size a)"
  by (auto simp: osize_def nth_opt_def dest: size_Array [OF nth_mem] split: option.splits)

lemma osize_keyedMap: "osize (map_of (keyedMap (Array a) kf) k) < Suc (size a)"
  by (auto simp: osize_def dest!: keyedMap_mem size_Array split: option.splits)

termination diffNodes
  apply (relation "measure (\<lambda>x. case x of
      Inl (Inl (rt, opts, a, b, path)) \<Rightarrow> 3 * (osize a + osize b) + 2
    | Inl (Inr (rt, opts, a, b, path)) \<Rightarrow> 3 * (Suc (size a) + Suc (size b))
    | Inr (Inl (rt, opts, a, b, path)) \<Rightarrow> 3 * (Suc (size a) + Suc (size b)) + 1
    | Inr (Inr (rt, opts, a, b, path, kf)) \<Rightarrow> 3 * (Suc (size a) + Suc (size b)))")
  subgoal by simp
  subgoal by (auto simp: osize_def)
  subgoal by (auto simp: osize_def)
  subgoal for rt opts a b path key
    using osize_Object [of a key] osize_Object [of b key] by simp
  subgoal for rt opts a b path i
    using osize_nth_opt [of a i] osize_nth_opt [of b i] by simp
  subgoal by simp
  subgoal for rt opts a b path kf key
    using osize_keyedMap [of a kf key] osize_keyedMap [of b kf key] by simp
  done

declare diffNodes.simps [simp del] diffObjects.simps [simp del] diffArrays.simps [simp del]
  diffArrayAsSet.simps [simp del]

text \<open>
  \<open>Diff\<close> runs \<open>diffNodes\<close> at the root path and, with \<open>StableOrder\<close>, sorts the changes
  by \<open>Path\<close>.  Go's \<open>sort.Slice\<close> promises no order among changes of equal path; the
  insertion sort \<open>sort_key\<close> stands for it, and nothing below depends on the order of equal
  paths.  The error returned is always nil.
\<close>

definition Diff :: "runtime \<Rightarrow> node option \<Rightarrow> node option \<Rightarrow> Options \<Rightarrow> error + Change list" where
  "Diff rt a b opts =
     (let changes = diffNodes rt opts a b ''/''
      in Inr (if StableOrder opts then sort_key Path changes else changes))"

text \<open>
  Concrete inputs for the examples: a runtime whose \<open>range\<close> yields the keys in the
  order given and whose \<open>ParseFloat\<close> knows the literal \<open>42\<close> only, and the zero value
  of \<open>Options\<close>.
\<close>

definition rt0 :: runtime where
  "rt0 = \<lparr>ParseFloat = (\<lambda>s. if s = ''42'' then Some f64_42 else None),
           rangeOrder = (\<lambda>ks. ks)\<rparr>"

definition opts0 :: Options where
  "opts0 = \<lparr>IgnorePaths = [], ArraySetKeys = Map.empty,
             Coercions = \<lparr>NumericStrings = False, BoolStrings = False\<rparr>,
             StableOrder = False\<rparr>"

definition modify :: "string \<Rightarrow> node \<Rightarrow> node \<Rightarrow> Change" where
  "modify path old new = \<lparr>Type = ChangeTypeModify, Path = path, OldValue = Some old,
     NewValue = Some new, ArrayIndex = 0\<rparr>"

definition add :: "string \<Rightarrow> node \<Rightarrow> Change" where
  "add path new = \<lparr>Type = ChangeTypeAdd, Path = path, OldValue = None,
     NewValue = Some new, ArrayIndex = 0\<rparr>"

definition remove :: "string \<Rightarrow> node \<Rightarrow> Change" where
  "remove path old = \<lparr>Type = ChangeTypeRemove, Path = path, OldValue = Some old,
     NewValue = None, ArrayIndex = 0\<rparr>"

section \<open>What every emitted change satisfies\<close>

text \<open>
  A predicate that holds of every change \<open>diffNodes\<close> can append at a path that is not
  ignored holds of every change of the traversal.
\<close>

definition emits :: "Options \<Rightarrow> (Change \<Rightarrow> bool) \<Rightarrow> bool" where
  "emits opts Q = (\<forall>path m n. \<not> shouldIgnore opts path \<longrightarrow>
     Q (add path n) \<and> Q (remove path n) \<and> Q (modify path m n))"

lemma emitted_all:
  "emits opts Q \<Longrightarrow> \<forall>c\<in>set (diffNodes rt opts a b path). Q c"
  "emits opts Q \<Longrightarrow> \<forall>c\<in>set (diffObjects rt opts an bn path). Q c"
  "emits opts Q \<Longrightarrow> \<forall>c\<in>set (diffArrays rt opts an bn path). Q c"
  "emits opts Q \<Longrightarrow> \<forall>c\<in>set (diffArrayAsSet rt opts an bn path kf). Q c"
proof (induction rt opts a b path and rt opts an bn path and rt opts an bn path
    and rt opts an bn path kf rule: diffNodes_diffObjects_diffArrays_diffArrayAsSet.induct)
  case (1 rt opts a b path)
  show ?case
  proof (cases "shouldIgnore opts path")
    case True
    then show ?thesis by (simp add: diffNodes.simps)
  next
    case False
    with "1.prems" have Q: "\<And>m n. Q (add path n) \<and> Q (remove path n) \<and> Q (modify path m n)"
      by (simp add: emits_def)
    from False 1 show ?thesis
      by (subst diffNodes.simps)
        (auto simp: Q [unfolded add_def remove_def modify_def] split: option.splits)
  qed
next
  case (2 rt opts a b path)
  then show ?case by (subst diffObjects.simps) auto
next
  case (3 rt opts a b path)
  then show ?case by (subst diffArrays.simps) (auto split: option.splits)
next
  case (4 rt opts a b path keyField)
  then show ?case by (subst diffArrayAsSet.simps) auto
qed

lemma Diff_changes:
  "Diff rt a b opts = Inr cs \<Longrightarrow> set cs = set (diffNodes rt opts a b ''/'')"
  by (auto simp: Diff_def Let_def split: if_splits)

section \<open>Reflexivity\<close>

text \<open>
  A tree has a NaN when one of its \<open>Number\<close> nodes holds one; an absent tree has none.
\<close>

fun hasNaN :: "node \<Rightarrow> bool" where
  "hasNaN (NewNumber x) = isNaN x"
| "hasNaN (NewObject kvs) = list_ex (\<lambda>kv. hasNaN (snd kv)) kvs"
| "hasNaN (NewArray xs) = list_ex hasNaN xs"
| "hasNaN _ = False"

definition noNaN :: "node option \<Rightarrow> bool" where
  "noNaN a = (case a of None \<Rightarrow> True | Some n \<Rightarrow> \<not> hasNaN n)"

lemma float64_eq_refl: "float64_eq x x = (\<not> isNaN x)"
  by (auto simp: float64_eq_def)

lemma diffNodes_None_None: "diffNodes rt opts None None path = []"
  by (simp add: diffNodes.simps)

lemma concat_map_Nil: "(\<And>x. x \<in> set xs \<Longrightarrow> f x = []) \<Longrightarrow> concat (map f xs) = []"
  by (induction xs) auto

lemma diffNodes_refl: "\<not> hasNaN n \<Longrightarrow> diffNodes rt opts (Some n) (Some n) path = []"
proof (induction n arbitrary: path)
  case NewNull
  then show ?case by (simp add: diffNodes.simps)
next
  case (NewBool x)
  then show ?case by (simp add: diffNodes.simps)
next
  case (NewNumber x)
  then show ?case by (simp add: diffNodes.simps float64_eq_refl)
next
  case (NewString x)
  then show ?case by (simp add: diffNodes.simps)
next
  case (NewObject kvs)
  have "diffNodes rt opts (map_of kvs key) (map_of kvs key) p = []" for key p
  proof (cases "map_of kvs key")
    case None
    then show ?thesis by (simp add: diffNodes_None_None)
  next
    case (Some v)
    then have m: "(key, v) \<in> set kvs" by (rule map_of_SomeD)
    with NewObject.prems have "\<not> hasNaN v" by (auto simp: list_ex_iff)
    with NewObject.IH [OF m, of v p] Some show ?thesis by simp
  qed
  then have "diffObjects rt opts (NewObject kvs) (NewObject kvs) path = []"
    by (simp add: diffObjects.simps concat_map_Nil)
  then show ?case by (simp add: diffNodes.simps)
next
  case (NewArray xs)
  have pos: "diffNodes rt opts (nth_opt xs i) (nth_opt xs i) p = []" for i p
  proof (cases "i < length xs")
    case True
    with NewArray.prems have "\<not> hasNaN (xs ! i)" by (auto simp: list_ex_iff)
    with NewArray.IH [of "xs ! i" p] True show ?thesis by (simp add: nth_opt_def)
  next
    case False
    then show ?thesis by (simp add: nth_opt_def diffNodes_None_None)
  qed
  have keyed: "diffNodes rt opts (map_of (keyedMap xs kf) key) (map_of (keyedMap xs kf) key) p = []"
    for kf key p
  proof (cases "map_of (keyedMap xs kf) key")
    case None
    then show ?thesis by (simp add: diffNodes_None_None)
  next
    case (Some e)
    then have m: "e \<in> set xs" by (rule keyedMap_mem)
    with NewArray.prems have "\<not> hasNaN e" by (auto simp: list_ex_iff)
    with NewArray.IH [OF m, of p] Some show ?thesis by simp
  qed
  have "diffArrays rt opts (NewArray xs) (NewArray xs) path = []"
    by (simp add: diffArrays.simps diffArrayAsSet.simps concat_map_Nil pos keyed
        split: option.splits)
  then show ?case by (simp add: diffNodes.simps)
qed


text \<open>
  C2 (as stated): for every tree \<open>a\<close> and every \<open>Options\<close> value, \<open>Diff(a, a, opts)\<close> is
  the empty change list.  It fails on a \<open>Number\<close> node that holds a NaN: \<open>diffNodes\<close>
  compares the two \<open>Value\<close> fields with Go's \<open>!=\<close>, under which a NaN differs from
  itself, and reports a \<open>Modify\<close>.
\<close>

theorem C2_reflexivity_counterexample:
  "Diff rt0 (Some (NewNumber f64_NaN)) (Some (NewNumber f64_NaN)) opts0 =
     Inr [modify ''/'' (NewNumber f64_NaN) (NewNumber f64_NaN)] \<and>
   Diff rt0 (Some (NewNumber f64_NaN)) (Some (NewNumber f64_NaN)) opts0 \<noteq> Inr []"
  by code_simp

text \<open>
  C2 (amended): for every tree \<open>a\<close>, present or absent, none of whose \<open>Number\<close> nodes
  holds a NaN, and every \<open>Options\<close> value, \<open>Diff(a, a, opts)\<close> is the empty change list.
\<close>

theorem C2_reflexivity: "noNaN a \<Longrightarrow> Diff rt a a opts = Inr []"
  by (cases a) (simp_all add: Diff_def noNaN_def diffNodes_refl diffNodes_None_None)

theorem C2_reflexivity_witness:
  "noNaN (Some (NewObject [(''keep'', NewNumber f64_1),
      (''list'', NewArray [NewString ''x'', NewNull, NewBool True])])) \<and>
   Diff rt0
     (Some (NewObject [(''keep'', NewNumber f64_1),
        (''list'', NewArray [NewString ''x'', NewNull, NewBool True])]))
     (Some (NewObject [(''keep'', NewNumber f64_1),
        (''list'', NewArray [NewString ''x'', NewNull, NewBool True])])) opts0 = Inr []"
proof -
  have 1: "noNaN (Some (NewObject [(''keep'', NewNumber f64_1),
      (''list'', NewArray [NewString ''x'', NewNull, NewBool True])]))"
    by (simp add: noNaN_def isNaN_def f64_1_def)
  from 1 C2_reflexivity [OF 1, of rt0 opts0] show ?thesis by simp
qed

section \<open>Symmetry, and independence of the iteration order\<close>

text \<open>
  Swapping the two operands of the traversal swaps \<open>Add\<close> with \<open>Remove\<close> and the old
  value with the new one in every change, whatever the order in which the two runs range
  over their maps.
\<close>

definition flipChange :: "Change \<Rightarrow> Change" where
  "flipChange c = \<lparr>Type = (case Type c of ChangeTypeAdd \<Rightarrow> ChangeTypeRemove
                              | ChangeTypeRemove \<Rightarrow> ChangeTypeAdd | t \<Rightarrow> t),
     Path = Path c, OldValue = NewValue c, NewValue = OldValue c, ArrayIndex = ArrayIndex c\<rparr>"

lemma mset_concat_map_perm:
  "mset xs = mset ys \<Longrightarrow> mset (concat (map f xs)) = mset (concat (map f ys))"
proof -
  assume eq: "mset xs = mset ys"
  have "mset (concat (map f zs)) = sum_mset (image_mset (\<lambda>x. mset (f x)) (mset zs))" for zs
    by (induction zs) simp_all
  with eq show ?thesis by simp
qed

lemma mset_concat_map_image:
  "(\<And>x. x \<in> set xs \<Longrightarrow> mset (g x) = image_mset h (mset (f x))) \<Longrightarrow>
   mset (concat (map g xs)) = image_mset h (mset (concat (map f xs)))"
  by (induction xs) simp_all

lemma float64_eq_sym: "float64_eq x y = float64_eq y x"
  by (auto simp: float64_eq_def)

lemma val_eq_sym: "val_eq x y = val_eq y x"
  by (cases x; cases y) (auto simp: float64_eq_sym)

lemma canCoerce_sym:
  "ParseFloat rt2 = ParseFloat rt1 \<Longrightarrow> canCoerce rt2 opts b a = canCoerce rt1 opts a b"
  by (cases a; cases b) (auto simp: canCoerce_def float64_eq_sym split: option.splits)

lemma mset_unionKeys:
  "rangeOrder_ok rt \<Longrightarrow>
   mset (unionKeys rt opts A B) = mset (remdups (map fst A @ map fst B))"
  by (simp add: unionKeys_def rangeOrder_ok_def Let_def)

lemma mset_unionKeys_sym:
  "rangeOrder_ok rt1 \<Longrightarrow> rangeOrder_ok rt2 \<Longrightarrow>
   mset (unionKeys rt2 opts B A) = mset (unionKeys rt1 opts A B)"
proof -
  have "mset (remdups (map fst B @ map fst A)) = mset (remdups (map fst A @ map fst B))"
    by (rule set_eq_iff_mset_eq_distinct [THEN iffD1]) auto
  then show "rangeOrder_ok rt1 \<Longrightarrow> rangeOrder_ok rt2 \<Longrightarrow> ?thesis"
    by (simp add: mset_unionKeys)
qed

lemma diff_flip:
  "rangeOrder_ok rt \<Longrightarrow> rangeOrder_ok rt2 \<Longrightarrow> ParseFloat rt2 = ParseFloat rt \<Longrightarrow>
   mset (diffNodes rt2 opts b a path) = image_mset flipChange (mset (diffNodes rt opts a b path))"
  "rangeOrder_ok rt \<Longrightarrow> rangeOrder_ok rt2 \<Longrightarrow> ParseFloat rt2 = ParseFloat rt \<Longrightarrow>
   mset (diffObjects rt2 opts bn an path) =
   image_mset flipChange (mset (diffObjects rt opts an bn path))"
  "rangeOrder_ok rt \<Longrightarrow> rangeOrder_ok rt2 \<Longrightarrow> ParseFloat rt2 = ParseFloat rt \<Longrightarrow>
   mset (diffArrays rt2 opts bn an path) =
   image_mset flipChange (mset (diffArrays rt opts an bn path))"
  "rangeOrder_ok rt \<Longrightarrow> rangeOrder_ok rt2 \<Longrightarrow> ParseFloat rt2 = ParseFloat rt \<Longrightarrow>
   mset (diffArrayAsSet rt2 opts bn an path kf) =
   image_mset flipChange (mset (diffArrayAsSet rt opts an bn path kf))"
proof (induction rt opts a b path and rt opts an bn path and rt opts an bn path
    and rt opts an bn path kf rule: diffNodes_diffObjects_diffArrays_diffArrayAsSet.induct)
  case (1 rt opts a b path)
  show ?case
  proof (cases "shouldIgnore opts path")
    case True
    then show ?thesis by (simp add: diffNodes.simps)
  next
    case False
    note ign = this
    show ?thesis
    proof (cases a)
      case None
      with ign show ?thesis
        by (cases b) (simp_all add: diffNodes.simps flipChange_def)
    next
      case (Some an)
      note a = this
      show ?thesis
      proof (cases b)
        case None
        with ign a show ?thesis by (simp add: diffNodes.simps flipChange_def)
      next
        case (Some bn)
        note b = this
        show ?thesis
        proof (cases "Kind an = Kind bn")
          case False
          with ign a b "1.prems" canCoerce_sym [of rt2 rt opts bn an] show ?thesis
            by (auto simp: diffNodes.simps flipChange_def)
        next
          case True
          note k = this
          consider (null) "Kind an = KindNull" | (obj) "Kind an = KindObject"
            | (arr) "Kind an = KindArray"
            | (scalar) "Kind an \<noteq> KindNull" "Kind an \<noteq> KindObject" "Kind an \<noteq> KindArray"
            by blast
          then show ?thesis
          proof cases
            case null
            with ign a b k show ?thesis by (simp add: diffNodes.simps)
          next
            case obj
            with ign a b k "1.IH"(1) "1.prems" show ?thesis
              by (simp add: diffNodes.simps)
          next
            case arr
            with ign a b k "1.IH"(2) "1.prems" show ?thesis
              by (simp add: diffNodes.simps)
          next
            case scalar
            with ign a b k val_eq_sym [of "Value bn" "Value an"] show ?thesis
              by (simp add: diffNodes.simps flipChange_def)
          qed
        qed
      qed
    qed
  qed
next
  case (2 rt opts a b path)
  have keys: "mset (unionKeys rt2 opts (Object b) (Object a)) =
      mset (unionKeys rt opts (Object a) (Object b))"
    using "2.prems" by (intro mset_unionKeys_sym)
  show ?case
    apply (subst (1 2) diffObjects.simps)
    apply (subst mset_concat_map_perm [OF keys])
    apply (rule mset_concat_map_image)
    using 2 by simp
next
  case (3 rt opts a b path)
  show ?case
  proof (cases "ArraySetKeys opts path")
    case None
    have "mset (concat (map (\<lambda>i. diffNodes rt2 opts (nth_opt (Array b) i) (nth_opt (Array a) i)
             (path @ ''['' @ itoa i @ '']'')) [0..<max (length (Array a)) (length (Array b))])) =
       image_mset flipChange (mset (concat (map (\<lambda>i. diffNodes rt opts (nth_opt (Array a) i)
         (nth_opt (Array b) i) (path @ ''['' @ itoa i @ '']''))
         [0..<max (length (Array a)) (length (Array b))])))"
      apply (rule mset_concat_map_image)
      using "3.IH"(1) [OF None] "3.prems" by simp
    with None show ?thesis by (simp add: diffArrays.simps max.commute)
  next
    case (Some keyField)
    with "3.IH"(2) [OF Some] "3.prems" show ?thesis by (simp add: diffArrays.simps)
  qed
next
  case (4 rt opts a b path keyField)
  have keys: "mset (unionKeys rt2 opts (keyedMap (Array b) keyField) (keyedMap (Array a) keyField)) =
      mset (unionKeys rt opts (keyedMap (Array a) keyField) (keyedMap (Array b) keyField))"
    using "4.prems" by (intro mset_unionKeys_sym)
  show ?case
    apply (subst (1 2) diffArrayAsSet.simps)
    apply (subst mset_concat_map_perm [OF keys])
    apply (rule mset_concat_map_image)
    using 4 by simp
qed

lemma flipChange_flipChange: "flipChange (flipChange c) = c"
  by (cases "Type c") (simp_all add: flipChange_def)

lemma flipChange_fields:
  "Path (flipChange c) = Path c"
  "OldValue (flipChange c) = NewValue c"
  "NewValue (flipChange c) = OldValue c"
  "(Type (flipChange c) = ChangeTypeRemove) = (Type c = ChangeTypeAdd)"
  "(Type (flipChange c) = ChangeTypeAdd) = (Type c = ChangeTypeRemove)"
  by (cases "Type c"; simp add: flipChange_def)+

lemma diff_order_indep:
  assumes "rangeOrder_ok rt" "rangeOrder_ok rt2" "ParseFloat rt2 = ParseFloat rt"
  shows "mset (diffNodes rt2 opts a b path) = mset (diffNodes rt opts a b path)"
proof -
  have "mset (diffNodes rt2 opts a b path) =
      image_mset flipChange (mset (diffNodes rt2 opts b a path))"
    using assms(2) by (intro diff_flip(1)) simp_all
  also have "mset (diffNodes rt2 opts b a path) =
      image_mset flipChange (mset (diffNodes rt opts a b path))"
    using assms by (intro diff_flip(1))
  finally show ?thesis
    by (simp add: multiset.map_comp comp_def flipChange_flipChange)
qed

lemma Diff_mset:
  "Diff rt a b opts = Inr cs \<Longrightarrow> mset cs = mset (diffNodes rt opts a b ''/'')"
  by (auto simp: Diff_def Let_def split: if_splits)

text \<open>
  C3: \<open>Diff(a, b)\<close> reports an \<open>Add\<close> at path \<open>P\<close> carrying the value \<open>v\<close> if and only
  if \<open>Diff(b, a)\<close> reports a \<open>Remove\<close> at path \<open>P\<close> carrying the same value \<open>v\<close>, for
  every pair of trees, every \<open>Options\<close> value, and every order in which the two runs
  range over their maps.
\<close>

theorem C3_symmetry:
  assumes "rangeOrder_ok rt1" "rangeOrder_ok rt2" "ParseFloat rt2 = ParseFloat rt1"
    and ab: "Diff rt1 a b opts = Inr ab" and ba: "Diff rt2 b a opts = Inr ba"
  shows "(\<exists>c\<in>set ab. Type c = ChangeTypeAdd \<and> Path c = P \<and> NewValue c = Some v) =
    (\<exists>c\<in>set ba. Type c = ChangeTypeRemove \<and> Path c = P \<and> OldValue c = Some v)"
proof -
  have "mset (diffNodes rt2 opts b a ''/'') =
      image_mset flipChange (mset (diffNodes rt1 opts a b ''/''))"
    using assms(1-3) by (intro diff_flip(1))
  then have "mset ba = image_mset flipChange (mset ab)"
    by (simp add: Diff_mset [OF ab] Diff_mset [OF ba])
  then have "set_mset (mset ba) = set_mset (image_mset flipChange (mset ab))" by simp
  then have eq: "set ba = flipChange ` set ab" by simp
  show ?thesis
  proof
    assume "\<exists>c\<in>set ab. Type c = ChangeTypeAdd \<and> Path c = P \<and> NewValue c = Some v"
    then obtain c where "c \<in> set ab" "Type c = ChangeTypeAdd" "Path c = P" "NewValue c = Some v"
      by blast
    then have "flipChange c \<in> set ba \<and> Type (flipChange c) = ChangeTypeRemove \<and>
        Path (flipChange c) = P \<and> OldValue (flipChange c) = Some v"
      by (simp add: eq flipChange_fields)
    then show "\<exists>c\<in>set ba. Type c = ChangeTypeRemove \<and> Path c = P \<and> OldValue c = Some v"
      by blast
  next
    assume "\<exists>c\<in>set ba. Type c = ChangeTypeRemove \<and> Path c = P \<and> OldValue c = Some v"
    then obtain c where c: "c \<in> set ab" "Type (flipChange c) = ChangeTypeRemove"
        "Path (flipChange c) = P" "OldValue (flipChange c) = Some v"
      by (auto simp: eq)
    then show "\<exists>c\<in>set ab. Type c = ChangeTypeAdd \<and> Path c = P \<and> NewValue c = Some v"
      by (auto simp: flipChange_fields)
  qed
qed

lemma rangeOrder_ok_rt0: "rangeOrder_ok rt0"
  by (simp add: rangeOrder_ok_def rt0_def)

theorem C3_symmetry_witness:
  "rangeOrder_ok rt0 \<and> ParseFloat rt0 = ParseFloat rt0 \<and>
   Diff rt0 (Some (NewArray [NewString ''x'']))
     (Some (NewArray [NewString ''x'', NewString ''y''])) opts0 =
     Inr [add ''/[1]'' (NewString ''y'')] \<and>
   Diff rt0 (Some (NewArray [NewString ''x'', NewString ''y'']))
     (Some (NewArray [NewString ''x''])) opts0 =
     Inr [remove ''/[1]'' (NewString ''y'')] \<and>
   ((\<exists>c\<in>set [add ''/[1]'' (NewString ''y'')].
       Type c = ChangeTypeAdd \<and> Path c = ''/[1]'' \<and> NewValue c = Some (NewString ''y'')) =
    (\<exists>c\<in>set [remove ''/[1]'' (NewString ''y'')].
       Type c = ChangeTypeRemove \<and> Path c = ''/[1]'' \<and> OldValue c = Some (NewString ''y'')))"
proof -
  have 1: "Diff rt0 (Some (NewArray [NewString ''x'']))
     (Some (NewArray [NewString ''x'', NewString ''y''])) opts0 =
     Inr [add ''/[1]'' (NewString ''y'')]"
    by code_simp
  have 2: "Diff rt0 (Some (NewArray [NewString ''x'', NewString ''y'']))
     (Some (NewArray [NewString ''x''])) opts0 =
     Inr [remove ''/[1]'' (NewString ''y'')]"
    by code_simp
  from C3_symmetry [OF rangeOrder_ok_rt0 rangeOrder_ok_rt0 refl 1 2,
      of "''/[1]''" "NewString ''y''"] 1 2 rangeOrder_ok_rt0
  show ?thesis by blast
qed

section \<open>Ignored paths\<close>

text \<open>
  The matching rule in the words of the specification, to compare with \<open>matchPath\<close>:
  pattern and path are split on \<open>/\<close>; a literal segment matches exactly that segment; a
  \<open>*\<close> that is the last segment matches zero or more trailing segments; a \<open>*\<close>
  elsewhere matches one or more segments, any number \<open>k\<close> of them being tried; a pattern
  without \<open>*\<close> matches the identical path only.
\<close>

fun spec_matchSegments :: "string list \<Rightarrow> string list \<Rightarrow> bool" where
  "spec_matchSegments path [] = (path = [])"
| "spec_matchSegments path [p] = (if p = ''*'' then True else path = [p])"
| "spec_matchSegments path (p # ps) =
     (if p = ''*'' then (\<exists>k\<in>{1..length path}. spec_matchSegments (drop k path) ps)
      else (path \<noteq> [] \<and> hd path = p \<and> spec_matchSegments (tl path) ps))"

definition spec_matchPath :: "string \<Rightarrow> string \<Rightarrow> bool" where
  "spec_matchPath path pattern =
     (if CHR ''*'' \<notin> set pattern then path = pattern
      else spec_matchSegments (splitSlash (trimSlash path)) (splitSlash (trimSlash pattern)))"

lemma matchSegments_star:
  "ps \<noteq> [] \<Longrightarrow> 1 \<le> k \<Longrightarrow> k \<le> length xs \<Longrightarrow> matchSegments (drop k xs) ps \<Longrightarrow>
   matchSegments xs (''*'' # ps)"
proof (induction xs arbitrary: k)
  case Nil
  then show ?case by simp
next
  case (Cons x xs)
  show ?case
  proof (cases "k = 1")
    case True
    with Cons.prems show ?thesis by simp
  next
    case False
    with Cons.prems have "1 \<le> k - 1" "k - 1 \<le> length xs" "matchSegments (drop (k - 1) xs) ps"
      by (auto simp: drop_Cons')
    from Cons.IH [OF Cons.prems(1) this] Cons.prems(1) show ?thesis by simp
  qed
qed

lemma spec_matchSegments_imp:
  "spec_matchSegments xs ps \<Longrightarrow> matchSegments xs ps"
proof (induction xs ps rule: spec_matchSegments.induct)
  case (1 path)
  then show ?case by simp
next
  case (2 path p)
  then show ?case by (cases path) (auto split: if_splits)
next
  case (3 path p q qs)
  show ?case
  proof (cases "p = ''*''")
    case True
    with "3.prems" obtain k where k: "1 \<le> k" "k \<le> length path"
        "spec_matchSegments (drop k path) (q # qs)"
      by auto
    from "3.IH"(1) [OF True _ k(3)] k have "matchSegments (drop k path) (q # qs)" by simp
    with k True show ?thesis by (auto intro: matchSegments_star)
  next
    case False
    with "3.prems" obtain x xs where p: "path = x # xs" "x = p" "spec_matchSegments xs (q # qs)"
      by (cases path) auto
    from "3.IH"(2) [OF False] p have "matchSegments xs (q # qs)" by simp
    with False p show ?thesis by simp
  qed
qed

lemma spec_matchPath_imp: "spec_matchPath path pattern \<Longrightarrow> matchPath path pattern"
  by (auto simp: spec_matchPath_def matchPath_def Let_def spec_matchSegments_imp
      split: if_splits)

lemma shouldIgnore_spec:
  "pattern \<in> set (IgnorePaths opts) \<Longrightarrow> spec_matchPath path pattern \<Longrightarrow>
   shouldIgnore opts path"
  by (auto simp: shouldIgnore_def list_ex_iff dest: spec_matchPath_imp)

lemma diffNodes_ignored: "shouldIgnore opts path \<Longrightarrow> diffNodes rt opts a b path = []"
  by (simp add: diffNodes.simps)

lemma emitted_not_ignored:
  "c \<in> set (diffNodes rt opts a b path) \<Longrightarrow> \<not> shouldIgnore opts (Path c)"
  using emitted_all(1) [of opts "\<lambda>c. \<not> shouldIgnore opts (Path c)" rt a b path]
  by (simp add: emits_def add_def remove_def modify_def)


lemma diff_order_id:
  "rangeOrder_ok rt \<Longrightarrow>
   mset (diffNodes rt opts a b path) =
   mset (diffNodes \<lparr>ParseFloat = ParseFloat rt, rangeOrder = (\<lambda>ks. ks)\<rparr> opts a b path)"
  by (rule diff_order_indep) (simp_all add: rangeOrder_ok_def)

lemma Diff_singleton:
  assumes "rangeOrder_ok rt" "\<not> StableOrder opts"
    and "diffNodes \<lparr>ParseFloat = ParseFloat rt, rangeOrder = (\<lambda>ks. ks)\<rparr> opts a b ''/'' = [c]"
  shows "Diff rt a b opts = Inr [c]"
proof -
  from assms(1,3) diff_order_id [of rt opts a b "''/''"]
  have "mset (diffNodes rt opts a b ''/'') = {#c#}" by simp
  then have "diffNodes rt opts a b ''/'' = [c]" by simp
  with assms(2) show ?thesis by (simp add: Diff_def)
qed

text \<open>
  Conversely, the rule describes \<open>matchPath\<close> exactly for every pattern with a \<open>*\<close>
  that does not end in two \<open>*\<close> segments.  Where it does, the code also matches the
  path that stops before them: a \<open>*\<close> that is not last then matches no segment.
\<close>

fun twoTrailingStars :: "string list \<Rightarrow> bool" where
  "twoTrailingStars (p # q # ps) =
     (if ps = [] then p = ''*'' \<and> q = ''*'' else twoTrailingStars (q # ps))"
| "twoTrailingStars _ = False"

lemma twoTrailingStars_Cons:
  "ps \<noteq> [] \<Longrightarrow> \<not> twoTrailingStars (p # ps) \<Longrightarrow> \<not> twoTrailingStars ps"
  by (cases ps) (auto split: if_splits)

lemma all_stars_single:
  "list_all (\<lambda>p. p = ''*'') ps \<Longrightarrow> ps \<noteq> [] \<Longrightarrow> \<not> twoTrailingStars ps \<Longrightarrow> ps = [''*'']"
  by (induction ps rule: twoTrailingStars.induct) (auto split: if_splits)

lemma matchSegments_imp_spec:
  "\<not> twoTrailingStars ps \<Longrightarrow> matchSegments xs ps \<Longrightarrow> spec_matchSegments xs ps"
proof (induction xs ps rule: matchSegments.induct)
  case (1 pathSegs)
  then show ?case by simp
next
  case (2 p ps)
  from all_stars_single [of "p # ps"] "2.prems" have "p # ps = [''*'']" by simp
  then show ?case by simp
next
  case (3 seg pathSegs pattern patternSegs)
  show ?case
  proof (cases patternSegs)
    case Nil
    with "3.prems" show ?thesis by (auto split: if_splits)
  next
    case (Cons q qs)
    then have ne: "patternSegs \<noteq> []" by simp
    from twoTrailingStars_Cons [OF ne "3.prems"(1)] have no: "\<not> twoTrailingStars patternSegs" .
    show ?thesis
    proof (cases "pattern = ''*''")
      case True
      from "3.prems"(2) True ne
      consider "matchSegments pathSegs patternSegs"
        | "matchSegments pathSegs (pattern # patternSegs)"
        by auto
      then have "\<exists>k\<in>{1..length (seg # pathSegs)}. spec_matchSegments (drop k (seg # pathSegs)) patternSegs"
      proof cases
        case 1
        from "3.IH"(1) [OF True ne no 1] show ?thesis by (intro bexI [of _ 1]) simp_all
      next
        case 2
        from "3.IH"(2) [OF True ne "3.prems"(1) 2] True Cons
        obtain k where "1 \<le> k" "k \<le> length pathSegs" "spec_matchSegments (drop k pathSegs) patternSegs"
          by auto
        then show ?thesis by (intro bexI [of _ "Suc k"]) simp_all
      qed
      with True Cons show ?thesis by simp
    next
      case False
      with "3.prems"(2) have m: "seg = pattern" "matchSegments pathSegs patternSegs"
        by (auto split: if_splits)
      from "3.IH"(3) [OF False _ no m(2)] m(1) have "spec_matchSegments pathSegs patternSegs" by simp
      with False m(1) Cons show ?thesis by simp
    qed
  qed
qed

lemma matchSegments_eq_spec:
  "\<not> twoTrailingStars ps \<Longrightarrow> matchSegments xs ps = spec_matchSegments xs ps"
  using matchSegments_imp_spec spec_matchSegments_imp by blast

lemma matchPath_eq_spec:
  "CHR ''*'' \<in> set pattern \<Longrightarrow> \<not> twoTrailingStars (splitSlash (trimSlash pattern)) \<Longrightarrow>
   matchPath path pattern = spec_matchPath path pattern"
  by (simp add: matchPath_def spec_matchPath_def matchSegments_eq_spec)

lemma matchPath_two_trailing_stars:
  "matchPath ''/a'' ''/a/*/*'' \<and> \<not> spec_matchPath ''/a'' ''/a/*/*''"
  by code_simp

text \<open>
  C4: for every path visited during the diff that matches some \<open>IgnorePaths\<close> pattern
  under the rule above (literal segments exactly, a last \<open>*\<close> zero or more trailing
  segments, a \<open>*\<close> elsewhere one or more segments, no \<open>*\<close> the exact path), the visit
  emits no change, neither for that path nor beneath it: \<open>diffNodes\<close> returns the empty
  list there, and no change of any \<open>Diff\<close> under these options carries that path.
  \<open>/status/*\<close> matches \<open>/status\<close>, \<open>/status/x\<close> and \<open>/status/x/y\<close>.  For
  \<open>a = {"keep": 1, "skip": {"x": 1}}\<close>, \<open>b = {"keep": 2, "skip": {"x": 2}}\<close> and
  \<open>IgnorePaths = ["/skip/*"]\<close> the result is exactly one change, \<open>Modify\<close> at
  \<open>/keep\<close>, in whatever order the maps are ranged over.
\<close>

theorem C4_ignore_suppresses:
  "(pattern \<in> set (IgnorePaths opts) \<longrightarrow> spec_matchPath path pattern \<longrightarrow>
      diffNodes rt opts a b path = [] \<and>
      (\<forall>x y changes. Diff rt x y opts = Inr changes \<longrightarrow> path \<notin> Path ` set changes)) \<and>
   spec_matchPath ''/status'' ''/status/*'' \<and> matchPath ''/status'' ''/status/*'' \<and>
   spec_matchPath ''/status/x'' ''/status/*'' \<and> matchPath ''/status/x'' ''/status/*'' \<and>
   spec_matchPath ''/status/x/y'' ''/status/*'' \<and> matchPath ''/status/x/y'' ''/status/*'' \<and>
   (rangeOrder_ok rt \<longrightarrow>
      Diff rt
        (Some (NewObject [(''keep'', NewNumber f64_1),
           (''skip'', NewObject [(''x'', NewNumber f64_1)])]))
        (Some (NewObject [(''keep'', NewNumber f64_2),
           (''skip'', NewObject [(''x'', NewNumber f64_2)])]))
        (opts0\<lparr>IgnorePaths := [''/skip/*'']\<rparr>) =
      Inr [modify ''/keep'' (NewNumber f64_1) (NewNumber f64_2)])"
proof -
  have ignored: "diffNodes rt opts a b path = [] \<and>
      (\<forall>x y changes. Diff rt x y opts = Inr changes \<longrightarrow> path \<notin> Path ` set changes)"
    if "pattern \<in> set (IgnorePaths opts)" "spec_matchPath path pattern"
  proof -
    from that have ign: "shouldIgnore opts path" by (rule shouldIgnore_spec)
    have "path \<notin> Path ` set changes" if d: "Diff rt x y opts = Inr changes" for x y changes
    proof
      assume "path \<in> Path ` set changes"
      then obtain c where "c \<in> set (diffNodes rt opts x y ''/'')" "Path c = path"
        by (auto simp: Diff_changes [OF d])
      with emitted_not_ignored [of c rt opts x y "''/''"] ign show False by simp
    qed
    with ign show ?thesis by (simp add: diffNodes_ignored)
  qed
  have examples: "spec_matchPath ''/status'' ''/status/*'' \<and> matchPath ''/status'' ''/status/*'' \<and>
   spec_matchPath ''/status/x'' ''/status/*'' \<and> matchPath ''/status/x'' ''/status/*'' \<and>
   spec_matchPath ''/status/x/y'' ''/status/*'' \<and> matchPath ''/status/x/y'' ''/status/*''"
    by code_simp
  have "diffNodes \<lparr>ParseFloat = ParseFloat rt, rangeOrder = (\<lambda>ks. ks)\<rparr>
        (opts0\<lparr>IgnorePaths := [''/skip/*'']\<rparr>)
        (Some (NewObject [(''keep'', NewNumber f64_1),
           (''skip'', NewObject [(''x'', NewNumber f64_1)])]))
        (Some (NewObject [(''keep'', NewNumber f64_2),
           (''skip'', NewObject [(''x'', NewNumber f64_2)])])) ''/'' =
      [modify ''/keep'' (NewNumber f64_1) (NewNumber f64_2)]"
    by code_simp
  then have "rangeOrder_ok rt \<Longrightarrow>
      Diff rt
        (Some (NewObject [(''keep'', NewNumber f64_1),
           (''skip'', NewObject [(''x'', NewNumber f64_1)])]))
        (Some (NewObject [(''keep'', NewNumber f64_2),
           (''skip'', NewObject [(''x'', NewNumber f64_2)])]))
        (opts0\<lparr>IgnorePaths := [''/skip/*'']\<rparr>) =
      Inr [modify ''/keep'' (NewNumber f64_1) (NewNumber f64_2)]"
    by (intro Diff_singleton) (simp_all add: opts0_def)
  with ignored examples show ?thesis by blast
qed

theorem C4_ignore_suppresses_witness:
  "''/skip/*'' \<in> set (IgnorePaths (opts0\<lparr>IgnorePaths := [''/skip/*'']\<rparr>)) \<and>
   spec_matchPath ''/skip/x'' ''/skip/*'' \<and>
   diffNodes rt0 (opts0\<lparr>IgnorePaths := [''/skip/*'']\<rparr>)
     (Some (NewNumber f64_1)) (Some (NewNumber f64_2)) ''/skip/x'' = [] \<and>
   rangeOrder_ok rt0 \<and>
   Diff rt0
     (Some (NewObject [(''keep'', NewNumber f64_1),
        (''skip'', NewObject [(''x'', NewNumber f64_1)])]))
     (Some (NewObject [(''keep'', NewNumber f64_2),
        (''skip'', NewObject [(''x'', NewNumber f64_2)])]))
     (opts0\<lparr>IgnorePaths := [''/skip/*'']\<rparr>) =
   Inr [modify ''/keep'' (NewNumber f64_1) (NewNumber f64_2)]"
proof -
  have 1: "''/skip/*'' \<in> set (IgnorePaths (opts0\<lparr>IgnorePaths := [''/skip/*'']\<rparr>))" by simp
  have 2: "spec_matchPath ''/skip/x'' ''/skip/*''" by code_simp
  from C4_ignore_suppresses [of "''/skip/*''" "opts0\<lparr>IgnorePaths := [''/skip/*'']\<rparr>"
      "''/skip/x''" rt0 "Some (NewNumber f64_1)" "Some (NewNumber f64_2)"] 1 2 rangeOrder_ok_rt0
  show ?thesis by blast
qed

section \<open>Coercion\<close>

text \<open>
  The pairs of kinds for which \<open>canCoerce\<close> has a rule, under the toggles that are set.
\<close>

lemma canCoerce_String_Number:
  "NumericStrings (Coercions opts) \<Longrightarrow>
   canCoerce rt opts (NewString s) (NewNumber x) =
     (\<exists>num. ParseFloat rt s = Some num \<and> float64_eq num x)"
  by (auto simp: canCoerce_def split: option.splits)

lemma canCoerce_String_Bool:
  "BoolStrings (Coercions opts) \<Longrightarrow>
   canCoerce rt opts (NewString s) (NewBool v) =
     ((s = ''true'' \<or> s = ''false'') \<and> (v = (s = ''true'')))"
  by (auto simp: canCoerce_def split: option.splits)

definition coercible_kinds :: "Options \<Rightarrow> NodeKind \<Rightarrow> NodeKind \<Rightarrow> bool" where
  "coercible_kinds opts ka kb =
     (NumericStrings (Coercions opts) \<and>
        (ka = KindString \<and> kb = KindNumber \<or> ka = KindNumber \<and> kb = KindString) \<or>
      BoolStrings (Coercions opts) \<and>
        (ka = KindString \<and> kb = KindBool \<or> ka = KindBool \<and> kb = KindString))"

lemma canCoerce_other:
  "\<not> coercible_kinds opts (Kind a) (Kind b) \<Longrightarrow> \<not> canCoerce rt opts a b"
  by (cases a; cases b) (auto simp: canCoerce_def coercible_kinds_def split: option.splits)

lemma diffNodes_mismatch:
  "Kind a \<noteq> Kind b \<Longrightarrow>
   diffNodes rt opts (Some a) (Some b) path =
     (if shouldIgnore opts path \<or> canCoerce rt opts a b then [] else [modify path a b])"
  by (simp add: diffNodes.simps modify_def)

lemma diffNodes_same_kind:
  "Kind a = Kind b \<Longrightarrow>
   diffNodes rt opts (Some a) (Some b) path =
     (if shouldIgnore opts path \<or> Kind a = KindNull then []
      else if Kind a = KindObject then diffObjects rt opts a b path
      else if Kind a = KindArray then diffArrays rt opts a b path
      else if val_eq (Value a) (Value b) then [] else [modify path a b])"
  by (simp add: diffNodes.simps modify_def)

text \<open>
  C6: coercion is consulted only on a kind mismatch (a mismatch yields no change exactly
  when the path is ignored or \<open>canCoerce\<close> holds; two nodes of one kind are compared
  by value or by their children, without it) and is symmetric in its operands.  With
  \<open>NumericStrings\<close>, a \<open>String\<close> and a \<open>Number\<close> are equal if and only if the
  string parses as a float that equals the number under IEEE-754 equality; with
  \<open>BoolStrings\<close>, a \<open>String\<close> and a \<open>Bool\<close> are equal if and only if the string is
  \<open>true\<close> or \<open>false\<close> and matches the boolean; no other mismatch is coercible.  \<open>String "42"\<close> against
  \<open>Number 42\<close> yields no change with \<open>NumericStrings\<close> and exactly one \<open>Modify\<close>
  without it (given that \<open>ParseFloat\<close> reads \<open>42\<close> as the number 42).
\<close>

theorem C6_coercion:
  "canCoerce rt opts a b = canCoerce rt opts b a \<and>
   (NumericStrings (Coercions opts) \<longrightarrow>
      canCoerce rt opts (NewString s) (NewNumber x) =
        (\<exists>num. ParseFloat rt s = Some num \<and> float64_eq num x)) \<and>
   (BoolStrings (Coercions opts) \<longrightarrow>
      canCoerce rt opts (NewString s) (NewBool v) =
        ((s = ''true'' \<or> s = ''false'') \<and> (v = (s = ''true'')))) \<and>
   (\<not> coercible_kinds opts (Kind a) (Kind b) \<longrightarrow> \<not> canCoerce rt opts a b) \<and>
   (Kind a \<noteq> Kind b \<longrightarrow>
      diffNodes rt opts (Some a) (Some b) path =
        (if shouldIgnore opts path \<or> canCoerce rt opts a b then [] else [modify path a b])) \<and>
   (Kind a = Kind b \<longrightarrow>
      diffNodes rt opts (Some a) (Some b) path =
        (if shouldIgnore opts path \<or> Kind a = KindNull then []
         else if Kind a = KindObject then diffObjects rt opts a b path
         else if Kind a = KindArray then diffArrays rt opts a b path
         else if val_eq (Value a) (Value b) then [] else [modify path a b])) \<and>
   (ParseFloat rt ''42'' = Some f64_42 \<and> IgnorePaths opts = [] \<longrightarrow>
      Diff rt (Some (NewString ''42'')) (Some (NewNumber f64_42)) opts =
        Inr (if NumericStrings (Coercions opts) then []
             else [modify ''/'' (NewString ''42'') (NewNumber f64_42)]))"
proof -
  have ex: "Diff rt (Some (NewString ''42'')) (Some (NewNumber f64_42)) opts =
        Inr (if NumericStrings (Coercions opts) then []
             else [modify ''/'' (NewString ''42'') (NewNumber f64_42)])"
    if "ParseFloat rt ''42'' = Some f64_42" "IgnorePaths opts = []"
  proof -
    have "f64_42 AND 0x7FF0000000000000 \<noteq> 0x7FF0000000000000" by (simp add: f64_42_def)
    then have eq: "float64_eq f64_42 f64_42" by (simp add: float64_eq_def isNaN_def)
    have "canCoerce rt opts (NewString ''42'') (NewNumber f64_42) = NumericStrings (Coercions opts)"
      using that(1) eq by (auto simp: canCoerce_def)
    with that(2) show ?thesis
      by (simp add: Diff_def diffNodes_mismatch shouldIgnore_def)
  qed
  show ?thesis
    using canCoerce_sym [of rt rt opts b a, OF refl]
      canCoerce_String_Number [of opts rt s x]
      canCoerce_String_Bool [of opts rt s v]
      canCoerce_other [of opts a b rt]
      diffNodes_mismatch [of a b rt opts path]
      diffNodes_same_kind [of a b rt opts path] ex
    by blast
qed

theorem C6_coercion_witness:
  "NumericStrings (Coercions (opts0\<lparr>Coercions := \<lparr>NumericStrings = True, BoolStrings = False\<rparr>\<rparr>)) \<and>
   ParseFloat rt0 ''42'' = Some f64_42 \<and>
   IgnorePaths (opts0\<lparr>Coercions := \<lparr>NumericStrings = True, BoolStrings = False\<rparr>\<rparr>) = [] \<and>
   canCoerce rt0 (opts0\<lparr>Coercions := \<lparr>NumericStrings = True, BoolStrings = False\<rparr>\<rparr>)
     (NewString ''42'') (NewNumber f64_42) \<and>
   Diff rt0 (Some (NewString ''42'')) (Some (NewNumber f64_42))
     (opts0\<lparr>Coercions := \<lparr>NumericStrings = True, BoolStrings = False\<rparr>\<rparr>) = Inr [] \<and>
   IgnorePaths opts0 = [] \<and>
   Diff rt0 (Some (NewString ''42'')) (Some (NewNumber f64_42)) opts0 =
     Inr [modify ''/'' (NewString ''42'') (NewNumber f64_42)]"
proof -
  have 1: "ParseFloat rt0 ''42'' = Some f64_42" by (simp add: rt0_def)
  have 2: "IgnorePaths (opts0\<lparr>Coercions := \<lparr>NumericStrings = True, BoolStrings = False\<rparr>\<rparr>) = []"
    "IgnorePaths opts0 = []"
    by (simp_all add: opts0_def)
  have 3: "NumericStrings (Coercions (opts0\<lparr>Coercions := \<lparr>NumericStrings = True, BoolStrings = False\<rparr>\<rparr>))"
    "\<not> NumericStrings (Coercions opts0)"
    by (simp_all add: opts0_def)
  have 4: "float64_eq f64_42 f64_42" by (simp add: float64_eq_def isNaN_def f64_42_def)
  note on = C6_coercion [of rt0 "opts0\<lparr>Coercions := \<lparr>NumericStrings = True, BoolStrings = False\<rparr>\<rparr>"
      "NewString ''42''" "NewNumber f64_42" "''42''" f64_42 True "''/''"]
  note off = C6_coercion [of rt0 opts0 "NewString ''42''" "NewNumber f64_42" "''42''" f64_42
      True "''/''"]
  from on 3(1) have "canCoerce rt0 (opts0\<lparr>Coercions := \<lparr>NumericStrings = True, BoolStrings = False\<rparr>\<rparr>)
     (NewString ''42'') (NewNumber f64_42) =
     (\<exists>num. ParseFloat rt0 ''42'' = Some num \<and> float64_eq num f64_42)"
    by blast
  with 1 4 have 5: "canCoerce rt0 (opts0\<lparr>Coercions := \<lparr>NumericStrings = True, BoolStrings = False\<rparr>\<rparr>)
     (NewString ''42'') (NewNumber f64_42)"
    by simp
  from on 1 2(1) have "Diff rt0 (Some (NewString ''42'')) (Some (NewNumber f64_42))
     (opts0\<lparr>Coercions := \<lparr>NumericStrings = True, BoolStrings = False\<rparr>\<rparr>) =
     Inr (if NumericStrings (Coercions (opts0\<lparr>Coercions := \<lparr>NumericStrings = True, BoolStrings = False\<rparr>\<rparr>))
          then [] else [modify ''/'' (NewString ''42'') (NewNumber f64_42)])"
    by blast
  with 3(1) have 6: "Diff rt0 (Some (NewString ''42'')) (Some (NewNumber f64_42))
     (opts0\<lparr>Coercions := \<lparr>NumericStrings = True, BoolStrings = False\<rparr>\<rparr>) = Inr []"
    by simp
  from off 1 2(2) have "Diff rt0 (Some (NewString ''42'')) (Some (NewNumber f64_42)) opts0 =
     Inr (if NumericStrings (Coercions opts0) then []
          else [modify ''/'' (NewString ''42'') (NewNumber f64_42)])"
    by blast
  with 3(2) have 7: "Diff rt0 (Some (NewString ''42'')) (Some (NewNumber f64_42)) opts0 =
     Inr [modify ''/'' (NewString ''42'') (NewNumber f64_42)]"
    by simp
  from 1 2 3(1) 5 6 7 show ?thesis by blast
qed

section \<open>Positional arrays\<close>

lemma diffNodes_arrays:
  "\<not> shouldIgnore opts path \<Longrightarrow>
   diffNodes rt opts (Some (NewArray as)) (Some (NewArray bs)) path =
   diffArrays rt opts (NewArray as) (NewArray bs) path"
  by (simp add: diffNodes.simps)

lemma diffNodes_add:
  "\<not> shouldIgnore opts path \<Longrightarrow> diffNodes rt opts None (Some n) path = [add path n]"
  by (simp add: diffNodes.simps add_def)

lemma diffNodes_remove:
  "\<not> shouldIgnore opts path \<Longrightarrow> diffNodes rt opts (Some n) None path = [remove path n]"
  by (simp add: diffNodes.simps remove_def)

text \<open>
  C7: two arrays whose path has no \<open>ArraySetKeys\<close> entry are compared by position: for
  each index from 0 to \<open>max(len(a), len(b)) - 1\<close> the pair at that index is compared
  at the path \<open><parent>[<index>]\<close>, an index beyond one array's length being absent on
  that side, which gives an \<open>Add\<close> or a \<open>Remove\<close> for each tail element (whose path is
  not ignored).  \<open>a = ["x"]\<close>, \<open>b = ["x", "y"]\<close> yields exactly one \<open>Add\<close> at
  \<open>/[1]\<close> with value \<open>"y"\<close>.
\<close>

theorem C7_positional_arrays:
  "(ArraySetKeys opts path = None \<longrightarrow>
      diffArrays rt opts (NewArray as) (NewArray bs) path =
        concat (map (\<lambda>i. diffNodes rt opts
                       (if i < length as then Some (as ! i) else None)
                       (if i < length bs then Some (bs ! i) else None)
                       (path @ ''['' @ itoa i @ '']''))
                    [0 ..< max (length as) (length bs)]) \<and>
      (\<not> shouldIgnore opts path \<longrightarrow>
         diffNodes rt opts (Some (NewArray as)) (Some (NewArray bs)) path =
         diffArrays rt opts (NewArray as) (NewArray bs) path)) \<and>
   (length as \<le> i \<and> i < length bs \<and> \<not> shouldIgnore opts (path @ ''['' @ itoa i @ '']'') \<longrightarrow>
      diffNodes rt opts (if i < length as then Some (as ! i) else None)
        (if i < length bs then Some (bs ! i) else None) (path @ ''['' @ itoa i @ '']'') =
      [add (path @ ''['' @ itoa i @ '']'') (bs ! i)]) \<and>
   (length bs \<le> i \<and> i < length as \<and> \<not> shouldIgnore opts (path @ ''['' @ itoa i @ '']'') \<longrightarrow>
      diffNodes rt opts (if i < length as then Some (as ! i) else None)
        (if i < length bs then Some (bs ! i) else None) (path @ ''['' @ itoa i @ '']'') =
      [remove (path @ ''['' @ itoa i @ '']'') (as ! i)]) \<and>
   Diff rt (Some (NewArray [NewString ''x''])) (Some (NewArray [NewString ''x'', NewString ''y'']))
     opts0 = Inr [add ''/[1]'' (NewString ''y'')]"
proof -
  have 1: "diffArrays rt opts (NewArray as) (NewArray bs) path =
        concat (map (\<lambda>i. diffNodes rt opts
                       (if i < length as then Some (as ! i) else None)
                       (if i < length bs then Some (bs ! i) else None)
                       (path @ ''['' @ itoa i @ '']''))
                    [0 ..< max (length as) (length bs)])"
    if "ArraySetKeys opts path = None"
    using that by (simp add: diffArrays.simps nth_opt_def)
  have "diffNodes \<lparr>ParseFloat = pf, rangeOrder = ord\<rparr> opts0
      (Some (NewArray [NewString ''x''])) (Some (NewArray [NewString ''x'', NewString ''y'']))
      ''/'' = [add ''/[1]'' (NewString ''y'')]" for pf ord
    by code_simp
  moreover have "\<not> StableOrder opts0" by (simp add: opts0_def)
  ultimately have 2: "Diff rt (Some (NewArray [NewString ''x'']))
      (Some (NewArray [NewString ''x'', NewString ''y''])) opts0 =
      Inr [add ''/[1]'' (NewString ''y'')]"
    by (cases rt) (simp add: Diff_def)
  from 1 2 show ?thesis
    by (simp add: diffNodes_arrays diffNodes_add diffNodes_remove)
qed

theorem C7_positional_arrays_witness:
  "ArraySetKeys opts0 ''/'' = None \<and> \<not> shouldIgnore opts0 ''/'' \<and>
   length [NewString ''x''] \<le> 1 \<and> 1 < length [NewString ''x'', NewString ''y''] \<and>
   \<not> shouldIgnore opts0 (''/'' @ ''['' @ itoa 1 @ '']'') \<and>
   diffNodes rt0 opts0 (Some (NewArray [NewString ''x'']))
     (Some (NewArray [NewString ''x'', NewString ''y''])) ''/'' =
   concat (map (\<lambda>i. diffNodes rt0 opts0
                  (if i < length [NewString ''x''] then Some ([NewString ''x''] ! i) else None)
                  (if i < length [NewString ''x'', NewString ''y'']
                   then Some ([NewString ''x'', NewString ''y''] ! i) else None)
                  (''/'' @ ''['' @ itoa i @ '']''))
               [0 ..< max (length [NewString ''x'']) (length [NewString ''x'', NewString ''y''])]) \<and>
   diffNodes rt0 opts0 None (Some (NewString ''y'')) ''/[1]'' = [add ''/[1]'' (NewString ''y'')]"
proof -
  have 1: "ArraySetKeys opts0 ''/'' = None" by (simp add: opts0_def)
  have 2: "\<not> shouldIgnore opts0 ''/''" by (simp add: opts0_def shouldIgnore_def)
  have 3: "length [NewString ''x''] \<le> 1" "1 < length [NewString ''x'', NewString ''y'']" by simp_all
  have 4: "\<not> shouldIgnore opts0 (''/'' @ ''['' @ itoa 1 @ '']'')"
    by (simp add: opts0_def shouldIgnore_def)
  note t = C7_positional_arrays [of opts0 "''/''" rt0 "[NewString ''x'']"
      "[NewString ''x'', NewString ''y'']" 1]
  from t 1 have a1: "diffArrays rt0 opts0 (NewArray [NewString ''x''])
     (NewArray [NewString ''x'', NewString ''y'']) ''/'' =
   concat (map (\<lambda>i. diffNodes rt0 opts0
                  (if i < length [NewString ''x''] then Some ([NewString ''x''] ! i) else None)
                  (if i < length [NewString ''x'', NewString ''y'']
                   then Some ([NewString ''x'', NewString ''y''] ! i) else None)
                  (''/'' @ ''['' @ itoa i @ '']''))
               [0 ..< max (length [NewString ''x'']) (length [NewString ''x'', NewString ''y''])])"
    by blast
  from t 1 2 have a2: "diffNodes rt0 opts0 (Some (NewArray [NewString ''x'']))
     (Some (NewArray [NewString ''x'', NewString ''y''])) ''/'' =
     diffArrays rt0 opts0 (NewArray [NewString ''x''])
     (NewArray [NewString ''x'', NewString ''y'']) ''/''"
    by blast
  from a2 a1 have a: "diffNodes rt0 opts0 (Some (NewArray [NewString ''x'']))
     (Some (NewArray [NewString ''x'', NewString ''y''])) ''/'' =
   concat (map (\<lambda>i. diffNodes rt0 opts0
                  (if i < length [NewString ''x''] then Some ([NewString ''x''] ! i) else None)
                  (if i < length [NewString ''x'', NewString ''y'']
                   then Some ([NewString ''x'', NewString ''y''] ! i) else None)
                  (''/'' @ ''['' @ itoa i @ '']''))
               [0 ..< max (length [NewString ''x'']) (length [NewString ''x'', NewString ''y''])])"
    by (rule trans)
  from t 3 4 have "diffNodes rt0 opts0
        (if 1 < length [NewString ''x''] then Some ([NewString ''x''] ! 1) else None)
        (if 1 < length [NewString ''x'', NewString ''y'']
         then Some ([NewString ''x'', NewString ''y''] ! 1) else None)
        (''/'' @ ''['' @ itoa 1 @ '']'') =
      [add (''/'' @ ''['' @ itoa 1 @ '']'') ([NewString ''x'', NewString ''y''] ! 1)]"
    by blast
  then have b: "diffNodes rt0 opts0 None (Some (NewString ''y'')) ''/[1]'' =
      [add ''/[1]'' (NewString ''y'')]"
    by (simp add: itoa.simps)
  from 1 2 3 4 a b show ?thesis by blast
qed

section \<open>Keyed arrays\<close>

text \<open>
  The elements the specification says enter the key-to-element map (an \<open>Object\<close> with a
  \<open>String\<close>-kind value at the key field), and the elements that do: the value must
  also differ from the empty string, which \<open>extractKey\<close> returns for "no key".
\<close>

definition spec_qualifies :: "node \<Rightarrow> string \<Rightarrow> bool" where
  "spec_qualifies elem keyField =
     (Kind elem = KindObject \<and>
      (case map_of (Object elem) keyField of
         Some keyNode \<Rightarrow> Kind keyNode = KindString
       | None \<Rightarrow> False))"

definition keyedElem :: "node \<Rightarrow> string \<Rightarrow> bool" where
  "keyedElem elem keyField =
     (Kind elem = KindObject \<and>
      (case map_of (Object elem) keyField of
         Some keyNode \<Rightarrow> Kind keyNode = KindString \<and> Value keyNode \<noteq> StringVal ''''
       | None \<Rightarrow> False))"

lemma keyedElem_extractKey: "keyedElem e kf = (extractKey e kf \<noteq> '''')"
proof (cases "map_of (Object e) kf")
  case None
  then show ?thesis by (simp add: keyedElem_def extractKey_def)
next
  case (Some keyNode)
  then show ?thesis by (cases keyNode) (simp_all add: keyedElem_def extractKey_def)
qed

lemma keyedElem_value:
  "keyedElem e kf \<Longrightarrow> map_of (Object e) kf = Some (NewString (extractKey e kf))"
proof (cases "map_of (Object e) kf")
  case None
  then show "keyedElem e kf \<Longrightarrow> ?thesis" by (simp add: keyedElem_def)
next
  case (Some keyNode)
  then show "keyedElem e kf \<Longrightarrow> ?thesis"
    by (cases keyNode) (simp_all add: keyedElem_def extractKey_def)
qed

lemma keyedMap_snoc:
  "keyedMap (xs @ [x]) kf =
     (if extractKey x kf \<noteq> '''' then AList.update (extractKey x kf) x (keyedMap xs kf)
      else keyedMap xs kf)"
  by (simp add: keyedMap_def Let_def)

lemma map_of_keyedMap:
  "map_of (keyedMap xs kf) k =
     (if k = '''' then None else find (\<lambda>x. extractKey x kf = k) (rev xs))"
proof (induction xs rule: rev_induct)
  case Nil
  then show ?case by (simp add: keyedMap_def)
next
  case (snoc x xs)
  then show ?case by (auto simp: keyedMap_snoc update_conv')
qed

lemma find_SomeD: "find P xs = Some y \<Longrightarrow> y \<in> set xs \<and> P y"
  by (induction xs) (auto split: if_splits)

lemma find_Some_ex: "(\<exists>y. find P xs = Some y) = (\<exists>x\<in>set xs. P x)"
  by (induction xs) auto

lemma keys_keyedMap:
  "fst ` set (keyedMap xs kf) = {k. k \<noteq> '''' \<and> (\<exists>e\<in>set xs. extractKey e kf = k)}"
proof -
  have "k \<in> fst ` set (keyedMap xs kf) \<longleftrightarrow> k \<noteq> '''' \<and> (\<exists>e\<in>set xs. extractKey e kf = k)" for k
  proof -
    have "k \<in> fst ` set (keyedMap xs kf) \<longleftrightarrow> map_of (keyedMap xs kf) k \<noteq> None"
      by (simp add: map_of_eq_None_iff)
    also have "\<dots> \<longleftrightarrow> k \<noteq> '''' \<and> (\<exists>e\<in>set xs. extractKey e kf = k)"
      by (simp add: map_of_keyedMap find_Some_ex)
    finally show ?thesis .
  qed
  then show ?thesis by blast
qed

lemma keyedMap_entry:
  "map_of (keyedMap xs kf) k = Some e \<Longrightarrow> e \<in> set xs \<and> extractKey e kf = k \<and> k \<noteq> ''''"
  by (auto simp: map_of_keyedMap dest: find_SomeD split: if_splits)

lemma keyedMap_filter:
  "keyedMap (filter (\<lambda>e. keyedElem e kf) xs) kf = keyedMap xs kf"
proof -
  have "foldl (\<lambda>m elem. let key = extractKey elem kf
                          in if key \<noteq> '''' then AList.update key elem m else m) m0
          (filter (\<lambda>e. keyedElem e kf) xs) =
        foldl (\<lambda>m elem. let key = extractKey elem kf
                          in if key \<noteq> '''' then AList.update key elem m else m) m0 xs" for m0
    by (induction xs arbitrary: m0) (simp_all add: keyedElem_extractKey Let_def)
  then show ?thesis by (simp add: keyedMap_def)
qed

lemma set_unionKeys:
  "rangeOrder_ok rt \<Longrightarrow> set (unionKeys rt opts A B) = fst ` set A \<union> fst ` set B"
proof -
  assume ok: "rangeOrder_ok rt"
  have "set (unionKeys rt opts A B) = set_mset (mset (unionKeys rt opts A B))" by simp
  also have "\<dots> = set_mset (mset (remdups (map fst A @ map fst B)))"
    using ok by (simp only: mset_unionKeys)
  finally show ?thesis by simp
qed

lemma distinct_unionKeys: "rangeOrder_ok rt \<Longrightarrow> distinct (unionKeys rt opts A B)"
proof -
  assume ok: "rangeOrder_ok rt"
  have "mset (unionKeys rt opts A B) = mset (remdups (map fst A @ map fst B))"
    using ok by (rule mset_unionKeys)
  then have "distinct (unionKeys rt opts A B) = distinct (remdups (map fst A @ map fst B))"
    by (rule mset_eq_imp_distinct_iff)
  then show ?thesis by simp
qed

text \<open>
  C5 (as stated): every element that is an \<open>Object\<close> with a \<open>String\<close>-kind value at
  the key field is entered into its side's map and takes part in the key union and the
  comparison.  It fails for the value \<open>""\<close>: \<open>[{"name": ""}]\<close> against \<open>[]\<close> under
  \<open>ArraySetKeys = {"/": "name"}\<close> has an empty map, an empty key union and no change.
\<close>

theorem C5_keyed_elements_counterexample:
  "spec_qualifies (NewObject [(''name'', NewString '''')]) ''name'' \<and>
   keyedMap [NewObject [(''name'', NewString '''')]] ''name'' = [] \<and>
   unionKeys rt0 (opts0\<lparr>ArraySetKeys := [''/'' \<mapsto> ''name'']\<rparr>)
     (keyedMap [NewObject [(''name'', NewString '''')]] ''name'') (keyedMap [] ''name'') = [] \<and>
   Diff rt0 (Some (NewArray [NewObject [(''name'', NewString '''')]])) (Some (NewArray []))
     (opts0\<lparr>ArraySetKeys := [''/'' \<mapsto> ''name'']\<rparr>) = Inr []"
  by code_simp

text \<open>
  C5 (amended): in key-addressed comparison, an element enters its side's map exactly
  when it is an \<open>Object\<close> with a non-empty \<open>String\<close> value at the key field, and
  that value is its key; such an element's key is in the map (bound to the last element
  of that side with this key)
  and in the key union, whichever side it is on; every map entry is such an element
  under its own key; and all other elements contribute no changes: removing them from
  both arrays leaves the result unchanged.
\<close>

theorem C5_keyed_elements:
  assumes "rangeOrder_ok rt"
  shows "keyedElem e kf = (extractKey e kf \<noteq> '''') \<and>
    (keyedElem e kf \<longrightarrow> map_of (Object e) kf = Some (NewString (extractKey e kf))) \<and>
    (e \<in> set (Array a) \<and> keyedElem e kf \<longrightarrow>
       map_of (keyedMap (Array a) kf) (extractKey e kf) =
         find (\<lambda>x. extractKey x kf = extractKey e kf) (rev (Array a)) \<and>
       extractKey e kf \<in> fst ` set (keyedMap (Array a) kf) \<and>
       extractKey e kf \<in> set (unionKeys rt opts (keyedMap (Array a) kf) (keyedMap (Array b) kf)) \<and>
       extractKey e kf \<in> set (unionKeys rt opts (keyedMap (Array b) kf) (keyedMap (Array a) kf))) \<and>
    (map_of (keyedMap (Array a) kf) k = Some e \<longrightarrow>
       e \<in> set (Array a) \<and> keyedElem e kf \<and> extractKey e kf = k) \<and>
    diffArrayAsSet rt opts a b path kf =
      diffArrayAsSet rt opts (NewArray (filter (\<lambda>x. keyedElem x kf) (Array a)))
        (NewArray (filter (\<lambda>x. keyedElem x kf) (Array b))) path kf"
proof -
  have 1: "keyedElem e kf = (extractKey e kf \<noteq> '''')" by (rule keyedElem_extractKey)
  have 2: "map_of (keyedMap (Array a) kf) (extractKey e kf) =
         find (\<lambda>x. extractKey x kf = extractKey e kf) (rev (Array a)) \<and>
       extractKey e kf \<in> fst ` set (keyedMap (Array a) kf) \<and>
       extractKey e kf \<in> set (unionKeys rt opts (keyedMap (Array a) kf) (keyedMap (Array b) kf)) \<and>
       extractKey e kf \<in> set (unionKeys rt opts (keyedMap (Array b) kf) (keyedMap (Array a) kf))"
    if "e \<in> set (Array a)" "keyedElem e kf"
  proof -
    from that have ne: "extractKey e kf \<noteq> ''''" by (simp add: keyedElem_extractKey)
    with that(1) have "extractKey e kf \<in> fst ` set (keyedMap (Array a) kf)"
      by (auto simp: keys_keyedMap)
    with ne assms show ?thesis by (simp add: map_of_keyedMap set_unionKeys)
  qed
  have 3: "e \<in> set (Array a) \<and> keyedElem e kf \<and> extractKey e kf = k"
    if "map_of (keyedMap (Array a) kf) k = Some e"
    using keyedMap_entry [OF that] by (simp add: keyedElem_extractKey)
  have 4: "diffArrayAsSet rt opts a b path kf =
      diffArrayAsSet rt opts (NewArray (filter (\<lambda>x. keyedElem x kf) (Array a)))
        (NewArray (filter (\<lambda>x. keyedElem x kf) (Array b))) path kf"
    by (simp add: diffArrayAsSet.simps keyedMap_filter)
  have 5: "map_of (Object e) kf = Some (NewString (extractKey e kf))" if "keyedElem e kf"
    using that by (rule keyedElem_value)
  from 1 2 3 4 5 show ?thesis by blast
qed

theorem C5_keyed_elements_witness:
  "rangeOrder_ok rt0 \<and>
   NewObject [(''name'', NewString ''p'')] \<in>
     set (Array (NewArray [NewNumber f64_1, NewObject [(''name'', NewString ''p'')]])) \<and>
   keyedElem (NewObject [(''name'', NewString ''p'')]) ''name'' \<and>
   extractKey (NewObject [(''name'', NewString ''p'')]) ''name'' = ''p'' \<and>
   ''p'' \<in> set (unionKeys rt0 opts0
      (keyedMap (Array (NewArray [NewNumber f64_1, NewObject [(''name'', NewString ''p'')]])) ''name'')
      (keyedMap (Array (NewArray [])) ''name'')) \<and>
   diffArrayAsSet rt0 opts0
     (NewArray [NewNumber f64_1, NewObject [(''name'', NewString ''p'')]]) (NewArray []) ''/'' ''name'' =
   diffArrayAsSet rt0 opts0
     (NewArray (filter (\<lambda>x. keyedElem x ''name'')
        (Array (NewArray [NewNumber f64_1, NewObject [(''name'', NewString ''p'')]]))))
     (NewArray (filter (\<lambda>x. keyedElem x ''name'') (Array (NewArray [])))) ''/'' ''name''"
proof -
  have 1: "NewObject [(''name'', NewString ''p'')] \<in>
     set (Array (NewArray [NewNumber f64_1, NewObject [(''name'', NewString ''p'')]]))"
    by simp
  have 2: "keyedElem (NewObject [(''name'', NewString ''p'')]) ''name''"
    by (simp add: keyedElem_def)
  have 3: "extractKey (NewObject [(''name'', NewString ''p'')]) ''name'' = ''p''"
    by (simp add: extractKey_def)
  from C5_keyed_elements [OF rangeOrder_ok_rt0,
      of "NewObject [(''name'', NewString ''p'')]" "''name''"
        "NewArray [NewNumber f64_1, NewObject [(''name'', NewString ''p'')]]" opts0 "NewArray []"
        "''p''" "''/''"] 1 2 3 rangeOrder_ok_rt0
  show ?thesis by (simp del: Array.simps set_simps filter.simps)
qed

lemma sorted_unionKeys: "StableOrder opts \<Longrightarrow> sorted (unionKeys rt opts A B)"
  by (simp add: unionKeys_def Let_def)

text \<open>
  C8: an array whose exact path is marked in \<open>ArraySetKeys\<close> is compared by key: a
  key-to-element map is built per side, the union of the keys is computed (every key
  once, sorted under \<open>StableOrder\<close>), and for each key the matched pair is compared at
  the path \<open><parent>[<keyfield>=<keyvalue>]\<close>, a side without the key being absent.
  \<open>a = [{"name":"p","v":1}]\<close>, \<open>b = [{"name":"p","v":2},{"name":"q","v":3}]\<close> with
  \<open>ArraySetKeys = {"/": "name"}\<close> yields exactly two changes: \<open>Modify\<close> at
  \<open>/[name=p]/v\<close> from 1 to 2 and \<open>Add\<close> at \<open>/[name=q]\<close> with the whole object.
\<close>

theorem C8_keyed_arrays:
  "(ArraySetKeys opts path = Some kf \<longrightarrow>
      diffArrays rt opts (NewArray as) (NewArray bs) path =
        concat (map (\<lambda>key. diffNodes rt opts (map_of (keyedMap as kf) key)
                         (map_of (keyedMap bs kf) key) (path @ ''['' @ kf @ ''='' @ key @ '']''))
                    (unionKeys rt opts (keyedMap as kf) (keyedMap bs kf))) \<and>
      (\<not> shouldIgnore opts path \<longrightarrow>
         diffNodes rt opts (Some (NewArray as)) (Some (NewArray bs)) path =
         diffArrays rt opts (NewArray as) (NewArray bs) path)) \<and>
   (rangeOrder_ok rt \<longrightarrow>
      set (unionKeys rt opts (keyedMap as kf) (keyedMap bs kf)) =
        fst ` set (keyedMap as kf) \<union> fst ` set (keyedMap bs kf) \<and>
      distinct (unionKeys rt opts (keyedMap as kf) (keyedMap bs kf))) \<and>
   (StableOrder opts \<longrightarrow> sorted (unionKeys rt opts (keyedMap as kf) (keyedMap bs kf))) \<and>
   (key \<notin> fst ` set (keyedMap as kf) \<longrightarrow> map_of (keyedMap as kf) key = None) \<and>
   (rangeOrder_ok rt \<longrightarrow>
      (\<exists>changes.
         Diff rt
           (Some (NewArray [NewObject [(''name'', NewString ''p''), (''v'', NewNumber f64_1)]]))
           (Some (NewArray [NewObject [(''name'', NewString ''p''), (''v'', NewNumber f64_2)],
              NewObject [(''name'', NewString ''q''), (''v'', NewNumber f64_3)]]))
           (opts0\<lparr>ArraySetKeys := [''/'' \<mapsto> ''name'']\<rparr>) = Inr changes \<and>
         mset changes =
           {#modify ''/[name=p]/v'' (NewNumber f64_1) (NewNumber f64_2),
             add ''/[name=q]'' (NewObject [(''name'', NewString ''q''), (''v'', NewNumber f64_3)])#}))"
proof -
  have 1: "diffArrays rt opts (NewArray as) (NewArray bs) path =
        concat (map (\<lambda>key. diffNodes rt opts (map_of (keyedMap as kf) key)
                         (map_of (keyedMap bs kf) key) (path @ ''['' @ kf @ ''='' @ key @ '']''))
                    (unionKeys rt opts (keyedMap as kf) (keyedMap bs kf)))"
    if "ArraySetKeys opts path = Some kf"
    using that by (simp add: diffArrays.simps diffArrayAsSet.simps)
  have 2: "key \<notin> fst ` set (keyedMap as kf) \<Longrightarrow> map_of (keyedMap as kf) key = None"
    by (simp add: map_of_eq_None_iff)
  have 3: "\<exists>changes.
         Diff rt
           (Some (NewArray [NewObject [(''name'', NewString ''p''), (''v'', NewNumber f64_1)]]))
           (Some (NewArray [NewObject [(''name'', NewString ''p''), (''v'', NewNumber f64_2)],
              NewObject [(''name'', NewString ''q''), (''v'', NewNumber f64_3)]]))
           (opts0\<lparr>ArraySetKeys := [''/'' \<mapsto> ''name'']\<rparr>) = Inr changes \<and>
         mset changes =
           {#modify ''/[name=p]/v'' (NewNumber f64_1) (NewNumber f64_2),
             add ''/[name=q]'' (NewObject [(''name'', NewString ''q''), (''v'', NewNumber f64_3)])#}"
    if ok: "rangeOrder_ok rt"
  proof -
    have "diffNodes \<lparr>ParseFloat = ParseFloat rt, rangeOrder = (\<lambda>ks. ks)\<rparr>
           (opts0\<lparr>ArraySetKeys := [''/'' \<mapsto> ''name'']\<rparr>)
           (Some (NewArray [NewObject [(''name'', NewString ''p''), (''v'', NewNumber f64_1)]]))
           (Some (NewArray [NewObject [(''name'', NewString ''p''), (''v'', NewNumber f64_2)],
              NewObject [(''name'', NewString ''q''), (''v'', NewNumber f64_3)]])) ''/'' =
         [modify ''/[name=p]/v'' (NewNumber f64_1) (NewNumber f64_2),
          add ''/[name=q]'' (NewObject [(''name'', NewString ''q''), (''v'', NewNumber f64_3)])]"
      by code_simp
    with diff_order_id [OF ok]
    have "mset (diffNodes rt (opts0\<lparr>ArraySetKeys := [''/'' \<mapsto> ''name'']\<rparr>)
           (Some (NewArray [NewObject [(''name'', NewString ''p''), (''v'', NewNumber f64_1)]]))
           (Some (NewArray [NewObject [(''name'', NewString ''p''), (''v'', NewNumber f64_2)],
              NewObject [(''name'', NewString ''q''), (''v'', NewNumber f64_3)]])) ''/'') =
         {#modify ''/[name=p]/v'' (NewNumber f64_1) (NewNumber f64_2),
           add ''/[name=q]'' (NewObject [(''name'', NewString ''q''), (''v'', NewNumber f64_3)])#}"
      by simp
    then show ?thesis
      by (simp add: Diff_def opts0_def)
  qed
  from 1 2 3 show ?thesis
    by (simp add: diffNodes_arrays set_unionKeys distinct_unionKeys sorted_unionKeys)
qed

theorem C8_keyed_arrays_witness:
  "ArraySetKeys (opts0\<lparr>ArraySetKeys := [''/'' \<mapsto> ''name'']\<rparr>) ''/'' = Some ''name'' \<and>
   \<not> shouldIgnore (opts0\<lparr>ArraySetKeys := [''/'' \<mapsto> ''name'']\<rparr>) ''/'' \<and>
   rangeOrder_ok rt0 \<and>
   diffNodes rt0 (opts0\<lparr>ArraySetKeys := [''/'' \<mapsto> ''name'']\<rparr>)
     (Some (NewArray [NewObject [(''name'', NewString ''p''), (''v'', NewNumber f64_1)]]))
     (Some (NewArray [NewObject [(''name'', NewString ''p''), (''v'', NewNumber f64_2)],
        NewObject [(''name'', NewString ''q''), (''v'', NewNumber f64_3)]])) ''/'' =
   diffArrays rt0 (opts0\<lparr>ArraySetKeys := [''/'' \<mapsto> ''name'']\<rparr>)
     (NewArray [NewObject [(''name'', NewString ''p''), (''v'', NewNumber f64_1)]])
     (NewArray [NewObject [(''name'', NewString ''p''), (''v'', NewNumber f64_2)],
        NewObject [(''name'', NewString ''q''), (''v'', NewNumber f64_3)]]) ''/'' \<and>
   unionKeys rt0 (opts0\<lparr>ArraySetKeys := [''/'' \<mapsto> ''name'']\<rparr>)
     (keyedMap [NewObject [(''name'', NewString ''p''), (''v'', NewNumber f64_1)]] ''name'')
     (keyedMap [NewObject [(''name'', NewString ''p''), (''v'', NewNumber f64_2)],
        NewObject [(''name'', NewString ''q''), (''v'', NewNumber f64_3)]] ''name'') =
     [''p'', ''q''] \<and>
   ''q'' \<notin> fst ` set (keyedMap [NewObject [(''name'', NewString ''p''), (''v'', NewNumber f64_1)]]
      ''name'') \<and>
   map_of (keyedMap [NewObject [(''name'', NewString ''p''), (''v'', NewNumber f64_1)]] ''name'')
     ''q'' = None \<and>
   (\<exists>changes.
      Diff rt0
        (Some (NewArray [NewObject [(''name'', NewString ''p''), (''v'', NewNumber f64_1)]]))
        (Some (NewArray [NewObject [(''name'', NewString ''p''), (''v'', NewNumber f64_2)],
           NewObject [(''name'', NewString ''q''), (''v'', NewNumber f64_3)]]))
        (opts0\<lparr>ArraySetKeys := [''/'' \<mapsto> ''name'']\<rparr>) = Inr changes \<and>
      mset changes =
        {#modify ''/[name=p]/v'' (NewNumber f64_1) (NewNumber f64_2),
          add ''/[name=q]'' (NewObject [(''name'', NewString ''q''), (''v'', NewNumber f64_3)])#})"
proof -
  have 1: "ArraySetKeys (opts0\<lparr>ArraySetKeys := [''/'' \<mapsto> ''name'']\<rparr>) ''/'' = Some ''name''"
    by simp
  have 2: "\<not> shouldIgnore (opts0\<lparr>ArraySetKeys := [''/'' \<mapsto> ''name'']\<rparr>) ''/''"
    by (simp add: shouldIgnore_def opts0_def)
  have 3: "unionKeys rt0 (opts0\<lparr>ArraySetKeys := [''/'' \<mapsto> ''name'']\<rparr>)
     (keyedMap [NewObject [(''name'', NewString ''p''), (''v'', NewNumber f64_1)]] ''name'')
     (keyedMap [NewObject [(''name'', NewString ''p''), (''v'', NewNumber f64_2)],
        NewObject [(''name'', NewString ''q''), (''v'', NewNumber f64_3)]] ''name'') =
     [''p'', ''q'']"
    by code_simp
  have 4: "''q'' \<notin> fst ` set (keyedMap
      [NewObject [(''name'', NewString ''p''), (''v'', NewNumber f64_1)]] ''name'')"
    by code_simp
  note t = C8_keyed_arrays [of "opts0\<lparr>ArraySetKeys := [''/'' \<mapsto> ''name'']\<rparr>" "''/''" "''name''" rt0
      "[NewObject [(''name'', NewString ''p''), (''v'', NewNumber f64_1)]]"
      "[NewObject [(''name'', NewString ''p''), (''v'', NewNumber f64_2)],
        NewObject [(''name'', NewString ''q''), (''v'', NewNumber f64_3)]]" "''q''"]
  from t 1 2 have 5: "diffNodes rt0 (opts0\<lparr>ArraySetKeys := [''/'' \<mapsto> ''name'']\<rparr>)
     (Some (NewArray [NewObject [(''name'', NewString ''p''), (''v'', NewNumber f64_1)]]))
     (Some (NewArray [NewObject [(''name'', NewString ''p''), (''v'', NewNumber f64_2)],
        NewObject [(''name'', NewString ''q''), (''v'', NewNumber f64_3)]])) ''/'' =
   diffArrays rt0 (opts0\<lparr>ArraySetKeys := [''/'' \<mapsto> ''name'']\<rparr>)
     (NewArray [NewObject [(''name'', NewString ''p''), (''v'', NewNumber f64_1)]])
     (NewArray [NewObject [(''name'', NewString ''p''), (''v'', NewNumber f64_2)],
        NewObject [(''name'', NewString ''q''), (''v'', NewNumber f64_3)]]) ''/''"
    by blast
  from t 4 have 6: "map_of (keyedMap
      [NewObject [(''name'', NewString ''p''), (''v'', NewNumber f64_1)]] ''name'') ''q'' = None"
    by blast
  from t rangeOrder_ok_rt0 have 7: "\<exists>changes.
      Diff rt0
        (Some (NewArray [NewObject [(''name'', NewString ''p''), (''v'', NewNumber f64_1)]]))
        (Some (NewArray [NewObject [(''name'', NewString ''p''), (''v'', NewNumber f64_2)],
           NewObject [(''name'', NewString ''q''), (''v'', NewNumber f64_3)]]))
        (opts0\<lparr>ArraySetKeys := [''/'' \<mapsto> ''name'']\<rparr>) = Inr changes \<and>
      mset changes =
        {#modify ''/[name=p]/v'' (NewNumber f64_1) (NewNumber f64_2),
          add ''/[name=q]'' (NewObject [(''name'', NewString ''q''), (''v'', NewNumber f64_3)])#}"
    by blast
  from 1 2 3 4 5 6 7 rangeOrder_ok_rt0 show ?thesis by blast
qed

section \<open>The repository's tests on the model\<close>

text \<open>
  Cases of \<open>diff_test.go\<close>, evaluated on the model: \<open>TestDiff_ComplexExample\<close> (a
  deployment with an ignored timestamp, a keyed container array and \<open>StableOrder\<close>),
  \<open>TestMatchPath\<close>, and three cases of \<open>TestDiff_Scalars\<close>.
\<close>

definition deploymentA :: node where
  "deploymentA = NewObject [
     (''apiVersion'', NewString ''apps/v1''),
     (''kind'', NewString ''Deployment''),
     (''metadata'', NewObject [(''name'', NewString ''myapp''),
        (''timestamp'', NewString ''2024-01-01'')]),
     (''spec'', NewObject [(''replicas'', NewNumber f64_3),
        (''containers'', NewArray [
           NewObject [(''name'', NewString ''nginx''), (''image'', NewString ''nginx:1.19'')],
           NewObject [(''name'', NewString ''sidecar''), (''image'', NewString ''sidecar:v1'')]])])]"

definition f64_5 :: float64 where "f64_5 = 0x4014000000000000"

definition deploymentB :: node where
  "deploymentB = NewObject [
     (''apiVersion'', NewString ''apps/v1''),
     (''kind'', NewString ''Deployment''),
     (''metadata'', NewObject [(''name'', NewString ''myapp''),
        (''timestamp'', NewString ''2024-01-02'')]),
     (''spec'', NewObject [(''replicas'', NewNumber f64_5),
        (''containers'', NewArray [
           NewObject [(''name'', NewString ''nginx''), (''image'', NewString ''nginx:1.20'')],
           NewObject [(''name'', NewString ''sidecar''), (''image'', NewString ''sidecar:v1'')]])])]"

lemma TestDiff_ComplexExample:
  "Diff rt0 (Some deploymentA) (Some deploymentB)
    \<lparr>IgnorePaths = [''/metadata/timestamp''], ArraySetKeys = [''/spec/containers'' \<mapsto> ''name''],
     Coercions = \<lparr>NumericStrings = False, BoolStrings = False\<rparr>, StableOrder = True\<rparr> =
   Inr [modify ''/spec/containers[name=nginx]/image'' (NewString ''nginx:1.19'') (NewString ''nginx:1.20''),
        modify ''/spec/replicas'' (NewNumber f64_3) (NewNumber f64_5)]"
  by code_simp

lemma TestMatchPath:
  "matchPath ''/exact/path'' ''/exact/path'' \<and>
   \<not> matchPath ''/exact/path'' ''/exact/other'' \<and>
   matchPath ''/metadata/timestamp'' ''/metadata/*'' \<and>
   matchPath ''/metadata/name'' ''/metadata/*'' \<and>
   \<not> matchPath ''/other/timestamp'' ''/metadata/*'' \<and>
   matchPath ''/status/conditions/0/type'' ''/status/*''"
  by code_simp

lemma TestDiff_Scalars_bool_string_coercion:
  "Diff rt0 (Some (NewString ''true'')) (Some (NewBool True))
     (opts0\<lparr>Coercions := \<lparr>NumericStrings = False, BoolStrings = True\<rparr>\<rparr>) = Inr []"
  by code_simp
lemma TestDiff_Scalars_add:
  "Diff rt0 None (Some (NewString ''added'')) opts0 = Inr [add ''/'' (NewString ''added'')]"
  by code_simp
lemma TestDiff_Scalars_remove:
  "Diff rt0 (Some (NewString ''removed'')) None opts0 = Inr [remove ''/'' (NewString ''removed'')]"
  by code_simp

section \<open>Errors\<close>

text \<open>
  C1 (as stated): \<open>Diff\<close> fails with an error when, and only when, it is called with
  malformed \<open>Options\<close>, for example an \<open>ArraySetKeys\<close> entry with an empty key-field
  name, and it fails before the traversal begins.  The code returns a nil error on
  every input and never inspects \<open>Options\<close> for malformation: with
  \<open>ArraySetKeys = {"/": ""}\<close>, \<open>[{"": "k"}]\<close> against \<open>[]\<close> is traversed, keyed on the
  field named \<open>""\<close>, and yields one \<open>Remove\<close> at \<open>/[=k]\<close> and no error.
\<close>

theorem C1_malformed_options_counterexample:
  "ArraySetKeys (opts0\<lparr>ArraySetKeys := [''/'' \<mapsto> '''']\<rparr>) ''/'' = Some '''' \<and>
   Diff rt0 (Some (NewArray [NewObject [('''', NewString ''k'')]])) (Some (NewArray []))
     (opts0\<lparr>ArraySetKeys := [''/'' \<mapsto> '''']\<rparr>) =
   Inr [remove ''/[=k]'' (NewObject [('''', NewString ''k'')])]"
proof -
  have "Diff rt0 (Some (NewArray [NewObject [('''', NewString ''k'')]])) (Some (NewArray []))
     (opts0\<lparr>ArraySetKeys := [''/'' \<mapsto> '''']\<rparr>) =
   Inr [remove ''/[=k]'' (NewObject [('''', NewString ''k'')])]"
    by code_simp
  then show ?thesis by simp
qed

text \<open>
  C1 (amended): \<open>Diff\<close> never fails.  For every pair of trees, present or absent, and
  every \<open>Options\<close> value, well formed or not, it returns the changes of the traversal
  from the root (in the traversal's order without \<open>StableOrder\<close>) and no error;
  \<open>Options\<close> is not validated before the traversal, and an \<open>ArraySetKeys\<close> entry
  with an empty key-field name is used as it is, the array being compared by the field
  named \<open>""\<close>.
\<close>

theorem C1_Diff_never_fails:
  "(\<exists>changes. Diff rt a b opts = Inr changes \<and>
      mset changes = mset (diffNodes rt opts a b ''/'') \<and>
      (\<not> StableOrder opts \<longrightarrow> changes = diffNodes rt opts a b ''/'')) \<and>
   Diff rt a b opts \<noteq> Inl e \<and>
   (ArraySetKeys opts path = Some '''' \<longrightarrow>
      diffArrays rt opts x y path = diffArrayAsSet rt opts x y path '''') \<and>
   (rangeOrder_ok rt \<longrightarrow>
      Diff rt (Some (NewArray [NewObject [('''', NewString ''k'')]])) (Some (NewArray []))
        (opts0\<lparr>ArraySetKeys := [''/'' \<mapsto> '''']\<rparr>) =
      Inr [remove ''/[=k]'' (NewObject [('''', NewString ''k'')])])"
proof -
  have 1: "\<exists>changes. Diff rt a b opts = Inr changes \<and>
      mset changes = mset (diffNodes rt opts a b ''/'') \<and>
      (\<not> StableOrder opts \<longrightarrow> changes = diffNodes rt opts a b ''/'')"
    by (simp add: Diff_def Let_def)
  have 2: "Diff rt a b opts \<noteq> Inl e" by (simp add: Diff_def Let_def)
  have 3: "diffArrays rt opts x y path = diffArrayAsSet rt opts x y path ''''"
    if "ArraySetKeys opts path = Some ''''"
    using that by (simp add: diffArrays.simps)
  have "diffNodes \<lparr>ParseFloat = ParseFloat rt, rangeOrder = (\<lambda>ks. ks)\<rparr>
        (opts0\<lparr>ArraySetKeys := [''/'' \<mapsto> '''']\<rparr>)
        (Some (NewArray [NewObject [('''', NewString ''k'')]])) (Some (NewArray [])) ''/'' =
      [remove ''/[=k]'' (NewObject [('''', NewString ''k'')])]"
    by code_simp
  then have 4: "rangeOrder_ok rt \<Longrightarrow>
      Diff rt (Some (NewArray [NewObject [('''', NewString ''k'')]])) (Some (NewArray []))
        (opts0\<lparr>ArraySetKeys := [''/'' \<mapsto> '''']\<rparr>) =
      Inr [remove ''/[=k]'' (NewObject [('''', NewString ''k'')])]"
    by (intro Diff_singleton) (simp_all add: opts0_def)
  from 1 2 3 4 show ?thesis by blast
qed

theorem C1_Diff_never_fails_witness:
  "ArraySetKeys (opts0\<lparr>ArraySetKeys := [''/'' \<mapsto> '''']\<rparr>) ''/'' = Some '''' \<and>
   rangeOrder_ok rt0 \<and>
   Diff rt0 (Some (NewArray [NewObject [('''', NewString ''k'')]])) (Some (NewArray []))
     (opts0\<lparr>ArraySetKeys := [''/'' \<mapsto> '''']\<rparr>) =
     Inr [remove ''/[=k]'' (NewObject [('''', NewString ''k'')])] \<and>
   Diff rt0 (Some (NewArray [NewObject [('''', NewString ''k'')]])) (Some (NewArray []))
     (opts0\<lparr>ArraySetKeys := [''/'' \<mapsto> '''']\<rparr>) \<noteq> Inl (DiffError ''malformed options'') \<and>
   diffArrays rt0 (opts0\<lparr>ArraySetKeys := [''/'' \<mapsto> '''']\<rparr>)
     (NewArray [NewObject [('''', NewString ''k'')]]) (NewArray []) ''/'' =
   diffArrayAsSet rt0 (opts0\<lparr>ArraySetKeys := [''/'' \<mapsto> '''']\<rparr>)
     (NewArray [NewObject [('''', NewString ''k'')]]) (NewArray []) ''/'' ''''"
proof -
  have 1: "ArraySetKeys (opts0\<lparr>ArraySetKeys := [''/'' \<mapsto> '''']\<rparr>) ''/'' = Some ''''" by simp
  note t = C1_Diff_never_fails [of rt0 "Some (NewArray [NewObject [('''', NewString ''k'')]])"
      "Some (NewArray [])" "opts0\<lparr>ArraySetKeys := [''/'' \<mapsto> '''']\<rparr>"
      "DiffError ''malformed options''" "''/''"
      "NewArray [NewObject [('''', NewString ''k'')]]" "NewArray []"]
  from t 1 rangeOrder_ok_rt0 show ?thesis by blast
qed

section \<open>Ordering\<close>

text \<open>
  C9: with \<open>StableOrder\<close> set, the change list \<open>Diff\<close> returns is sorted in ascending
  order of \<open>Path\<close>, strings compared lexicographically byte by byte; it holds the
  changes of the traversal, each as often as the traversal emitted it.
\<close>

theorem C9_stable_order_sorted:
  "StableOrder opts \<Longrightarrow> Diff rt a b opts = Inr changes \<Longrightarrow>
   sorted (map Path changes) \<and> mset changes = mset (diffNodes rt opts a b ''/'')"
  by (auto simp: Diff_def Let_def)

theorem C9_stable_order_sorted_witness:
  "StableOrder (opts0\<lparr>StableOrder := True\<rparr>) \<and>
   Diff rt0
     (Some (NewObject [(''z'', NewString ''old''), (''a'', NewString ''old''),
        (''m'', NewString ''old'')]))
     (Some (NewObject [(''z'', NewString ''new''), (''a'', NewString ''new''),
        (''m'', NewString ''new'')]))
     (opts0\<lparr>StableOrder := True\<rparr>) =
   Inr [modify ''/a'' (NewString ''old'') (NewString ''new''),
        modify ''/m'' (NewString ''old'') (NewString ''new''),
        modify ''/z'' (NewString ''old'') (NewString ''new'')] \<and>
   sorted [''/a'', ''/m'', ''/z'']"
proof -
  have 1: "StableOrder (opts0\<lparr>StableOrder := True\<rparr>)" by simp
  have 2: "Diff rt0
     (Some (NewObject [(''z'', NewString ''old''), (''a'', NewString ''old''),
        (''m'', NewString ''old'')]))
     (Some (NewObject [(''z'', NewString ''new''), (''a'', NewString ''new''),
        (''m'', NewString ''new'')]))
     (opts0\<lparr>StableOrder := True\<rparr>) =
   Inr [modify ''/a'' (NewString ''old'') (NewString ''new''),
        modify ''/m'' (NewString ''old'') (NewString ''new''),
        modify ''/z'' (NewString ''old'') (NewString ''new'')]"
    by code_simp
  from C9_stable_order_sorted [OF 1 2] have "sorted [''/a'', ''/m'', ''/z'']"
    by (simp add: modify_def del: mset.simps)
  with 1 2 show ?thesis by blast
qed

section \<open>Change types\<close>

text \<open>
  C10: no change in the list \<open>Diff\<close> returns has type \<open>Move\<close>; every one is an
  \<open>Add\<close>, a \<open>Remove\<close> or a \<open>Modify\<close>.
\<close>

theorem C10_no_move:
  "Diff rt a b opts = Inr changes \<Longrightarrow> c \<in> set changes \<Longrightarrow>
   Type c \<noteq> ChangeTypeMove \<and>
   (Type c = ChangeTypeAdd \<or> Type c = ChangeTypeRemove \<or> Type c = ChangeTypeModify)"
proof -
  assume d: "Diff rt a b opts = Inr changes" and c: "c \<in> set changes"
  have "\<forall>c\<in>set (diffNodes rt opts a b ''/'').
      Type c = ChangeTypeAdd \<or> Type c = ChangeTypeRemove \<or> Type c = ChangeTypeModify"
    by (rule emitted_all(1)) (simp add: emits_def add_def remove_def modify_def)
  with c Diff_changes [OF d] show ?thesis by auto
qed

theorem C10_no_move_witness:
  "Diff rt0 (Some (NewArray [NewString ''x'']))
     (Some (NewArray [NewString ''x'', NewString ''y''])) opts0 =
   Inr [add ''/[1]'' (NewString ''y'')] \<and>
   add ''/[1]'' (NewString ''y'') \<in> set [add ''/[1]'' (NewString ''y'')] \<and>
   Type (add ''/[1]'' (NewString ''y'')) \<noteq> ChangeTypeMove \<and>
   Type (add ''/[1]'' (NewString ''y'')) = ChangeTypeAdd"
proof -
  have 1: "Diff rt0 (Some (NewArray [NewString ''x'']))
     (Some (NewArray [NewString ''x'', NewString ''y''])) opts0 =
   Inr [add ''/[1]'' (NewString ''y'')]"
    by code_simp
  have 2: "add ''/[1]'' (NewString ''y'') \<in> set [add ''/[1]'' (NewString ''y'')]" by simp
  from C10_no_move [OF 1 2] 1 2 show ?thesis by (simp add: add_def)
qed

end
